theory Spec2Isabelle
  imports Main
begin

section \<open>Python values, strings and exceptions\<close>

text \<open>
  A Python \<open>str\<close> is a \<open>string\<close>, one \<open>char\<close> per code point; the model covers
  the strings whose code points are below 256. A cell value of the spreadsheet, a field of
  a row and a bound SQL parameter is \<open>None\<close>, an \<open>int\<close> or a \<open>str\<close>
  (floating point cells are not modelled). A \<open>dict\<close> is an association list in
  insertion order, read with \<open>dict_get\<close> as \<open>d.get(k, default)\<close> reads it.
\<close>

datatype pyval = PNone | PInt int | PStr string

type_synonym pydict = "(string \<times> pyval) list"

datatype exn =
    ValueError string
  | TypeError string
  | OverflowError string
  | IntegrityError string
  | OperationalError string
  | RemoteError string

fun str_exn :: "exn \<Rightarrow> string" where
  "str_exn (ValueError m) = m"
| "str_exn (TypeError m) = m"
| "str_exn (OverflowError m) = m"
| "str_exn (IntegrityError m) = m"
| "str_exn (OperationalError m) = m"
| "str_exn (RemoteError m) = m"

definition dict_get :: "('k \<times> 'v) list \<Rightarrow> 'k \<Rightarrow> 'v \<Rightarrow> 'v" where
  "dict_get d k dflt = (case map_of d k of None \<Rightarrow> dflt | Some v \<Rightarrow> v)"

text \<open>
  \<open>str.isspace\<close> on the code points below 256: tab, line feed, vertical tab, form
  feed, carriage return, the four separators 28 to 31, space, next line (133) and
  no-break space (160). \<open>str.strip()\<close> removes them from both ends.
\<close>

definition is_space :: "char \<Rightarrow> bool" where
  "is_space c = (of_char c \<in> {9, 10, 11, 12, 13, 28, 29, 30, 31, 32, 133, 160 :: nat})"

definition strip :: "string \<Rightarrow> string" where
  "strip s = rev (dropWhile is_space (rev (dropWhile is_space s)))"

section \<open>utils/common.py: progress normalisation\<close>

definition PROGRESS_MAPPING :: "(string \<times> string) list" where
  "PROGRESS_MAPPING =
    [(''done'', ''Done''),
     (''Done'', ''Done''),
     (''DONE'', ''Done''),
     (''in progress'', ''In Progress''),
     (''In Progress'', ''In Progress''),
     (''In progress'', ''In Progress''),
     (''IN PROGRESS'', ''In Progress''),
     (''pending'', ''Pending''),
     (''Pending'', ''Pending''),
     (''PENDING'', ''Pending''),
     (''block'', ''Blocked''),
     (''Block'', ''Blocked''),
     (''blocked'', ''Blocked''),
     (''Blocked'', ''Blocked''),
     (''BLOCKED'', ''Blocked'')]"

definition PROGRESS_VALUES :: "string list" where
  "PROGRESS_VALUES = [''Done'', ''In Progress'', ''Pending'', ''Blocked'']"

text \<open>
  \<open>normalize_progress(value)\<close>: \<open>None\<close> (for which \<open>pd.isna\<close> holds) gives
  \<open>Unknown\<close>; a string is stripped and looked up in the table.
\<close>

definition normalize_progress :: "string option \<Rightarrow> string" where
  "normalize_progress value =
     (case value of
        None \<Rightarrow> ''Unknown''
      | Some v \<Rightarrow> dict_get PROGRESS_MAPPING (strip v) ''Unknown'')"

text \<open>Upper and lower case of the ASCII letters, to name the case variants of a phrase.\<close>

definition to_upper :: "char \<Rightarrow> char" where
  "to_upper c =
     dict_get (zip ''abcdefghijklmnopqrstuvwxyz'' ''ABCDEFGHIJKLMNOPQRSTUVWXYZ'') c c"

definition to_lower :: "char \<Rightarrow> char" where
  "to_lower c =
     dict_get (zip ''ABCDEFGHIJKLMNOPQRSTUVWXYZ'' ''abcdefghijklmnopqrstuvwxyz'') c c"

section \<open>utils/common.py: date parsing\<close>

text \<open>
  \<open>datetime.strptime\<close> for the directives the formats of this module use. The
  format compiles to a regular expression; each directive is a group of alternatives
  tried in order, each alternative a sequence of character classes:
  \<^verbatim>\<open>%d  3[0-1] | [1-2]\d | 0[1-9] | [1-9] | " "[1-9]\<close>,
  \<^verbatim>\<open>%m  1[0-2] | 0[1-9] | [1-9]\<close>,
  \<^verbatim>\<open>%Y  \d\d\d\d\<close>, \<^verbatim>\<open>%y  \d\d\<close>.
  Below code point 256 the class \<^verbatim>\<open>\d\<close> is the ten ASCII digits.
\<close>

datatype directive = Dd | Dm | DY | Dy | Lit char

fun compile_format :: "string \<Rightarrow> directive list option" where
  "compile_format [] = Some []"
| "compile_format (c # cs) =
     (if c = CHR ''%'' then
        (case cs of
           [] \<Rightarrow> None
         | k # rest \<Rightarrow>
             (case (if k = CHR ''d'' then Some Dd
                    else if k = CHR ''m'' then Some Dm
                    else if k = CHR ''Y'' then Some DY
                    else if k = CHR ''y'' then Some Dy
                    else if k = CHR ''%'' then Some (Lit (CHR ''%''))
                    else None) of
                None \<Rightarrow> None
              | Some d \<Rightarrow> map_option (Cons d) (compile_format rest)))
      else map_option (Cons (Lit c)) (compile_format cs))"

definition digit_chars :: string where
  "digit_chars = ''0123456789''"

definition regex_of :: "directive \<Rightarrow> string list list" where
  "regex_of d =
     (case d of
        Dd \<Rightarrow> [[''3'', ''01''], [''12'', digit_chars], [''0'', ''123456789''],
               [''123456789''], ['' '', ''123456789'']]
      | Dm \<Rightarrow> [[''1'', ''012''], [''0'', ''123456789''], [''123456789'']]
      | DY \<Rightarrow> [[digit_chars, digit_chars, digit_chars, digit_chars]]
      | Dy \<Rightarrow> [[digit_chars, digit_chars]]
      | Lit c \<Rightarrow> [[[c]]])"

text \<open>One alternative against a prefix of the input: the text matched and the rest.\<close>

fun match_seq :: "string list \<Rightarrow> string \<Rightarrow> (string \<times> string) option" where
  "match_seq [] s = Some ([], s)"
| "match_seq (cl # cls) [] = None"
| "match_seq (cl # cls) (c # s) =
     (if c \<in> set cl
      then (case match_seq cls s of None \<Rightarrow> None | Some (m, r) \<Rightarrow> Some (c # m, r))
      else None)"

definition match_directive :: "directive \<Rightarrow> string \<Rightarrow> (string \<times> string) list" where
  "match_directive d s = List.map_filter (\<lambda>alt. match_seq alt s) (regex_of d)"

text \<open>
  All matches of the whole pattern from the start of the input, in the order in which a
  backtracking matcher finds them: the groups captured and the input left over.
  \<open>re.match\<close> returns the first.
\<close>

primrec match_format ::
  "directive list \<Rightarrow> string \<Rightarrow> ((directive \<times> string) list \<times> string) list" where
  "match_format [] = (\<lambda>s. [([], s)])"
| "match_format (d # ds) =
     (\<lambda>s. concat (map (\<lambda>mr. map (\<lambda>gr. ((d, fst mr) # fst gr, snd gr))
                                   (match_format ds (snd mr)))
                      (match_directive d s)))"

text \<open>\<open>int(group)\<close> on a matched group: \<open>int\<close> skips the blank of a padded day.\<close>

definition int_of_group :: "string \<Rightarrow> nat" where
  "int_of_group g =
     foldl (\<lambda>a c. 10 * a + (of_char c - 48)) 0 (filter (\<lambda>c. c \<in> set digit_chars) g)"

record datetime =
  year :: nat
  month :: nat
  day :: nat

definition is_leap :: "nat \<Rightarrow> bool" where
  "is_leap y = (y mod 4 = 0 \<and> (y mod 100 \<noteq> 0 \<or> y mod 400 = 0))"

definition days_in_month :: "nat \<Rightarrow> nat \<Rightarrow> nat" where
  "days_in_month y m =
     (if m = 2 then (if is_leap y then 29 else 28)
      else if m \<in> {4, 6, 9, 11} then 30 else 31)"

text \<open>
  The fields of the groups: \<open>%y\<close> up to 68 is 20xx, above it 19xx; a format without a
  year gives 1900, without a month or a day gives 1. The date constructor rejects a year
  outside 1 to 9999, a month outside 1 to 12 and a day the month does not have.
\<close>

definition group_year :: "(directive \<times> string) list \<Rightarrow> nat" where
  "group_year gs =
     (case map_of gs DY of
        Some g \<Rightarrow> int_of_group g
      | None \<Rightarrow>
          (case map_of gs Dy of
             Some g \<Rightarrow> (if int_of_group g \<le> 68 then int_of_group g + 2000
                        else int_of_group g + 1900)
           | None \<Rightarrow> 1900))"

definition group_field :: "(directive \<times> string) list \<Rightarrow> directive \<Rightarrow> nat" where
  "group_field gs d = (case map_of gs d of Some g \<Rightarrow> int_of_group g | None \<Rightarrow> 1)"

definition datetime_date :: "nat \<Rightarrow> nat \<Rightarrow> nat \<Rightarrow> exn + datetime" where
  "datetime_date y m d =
     (if y < 1 \<or> 9999 < y then Inl (ValueError ''year is out of range'')
      else if m < 1 \<or> 12 < m then Inl (ValueError ''month must be in 1..12'')
      else if d < 1 \<or> days_in_month y m < d
        then Inl (ValueError ''day is out of range for month'')
      else Inr \<lparr>year = y, month = m, day = d\<rparr>)"

definition strptime :: "string \<Rightarrow> string \<Rightarrow> exn + datetime" where
  "strptime data_string fmt =
     (case compile_format fmt of
        None \<Rightarrow> Inl (ValueError ''bad directive in format'')
      | Some ds \<Rightarrow>
          (case match_format ds data_string of
             [] \<Rightarrow> Inl (ValueError ''time data does not match format'')
           | (gs, rest) # _ \<Rightarrow>
               (if rest \<noteq> [] then Inl (ValueError ''unconverted data remains'')
                else datetime_date (group_year gs) (group_field gs Dm) (group_field gs Dd))))"

definition DATE_FORMATS :: "string list" where
  "DATE_FORMATS = [''%m/%d/%Y'', ''%Y-%m-%d'', ''%m/%d/%y'', ''%d/%m/%Y'']"

text \<open>
  The loop of \<open>parse_date\<close> over the formats: a \<open>ValueError\<close> moves on to the next
  format, any other exception leaves through the outer handler, which returns \<open>None\<close>.
\<close>

fun try_formats :: "string \<Rightarrow> string list \<Rightarrow> datetime option" where
  "try_formats cleaned [] = None"
| "try_formats cleaned (fmt # fmts) =
     (case strptime cleaned fmt of
        Inr dt \<Rightarrow> Some dt
      | Inl (ValueError _) \<Rightarrow> try_formats cleaned fmts
      | Inl _ \<Rightarrow> None)"

definition parse_date :: "string option \<Rightarrow> datetime option" where
  "parse_date date_str =
     (case date_str of
        None \<Rightarrow> None
      | Some s \<Rightarrow> if s = [] then None else try_formats (strip s) DATE_FORMATS)"

section \<open>config.py: the column mapping\<close>

definition COLUMN_MAPPING :: "(string \<times> string) list" where
  "COLUMN_MAPPING =
    [(''ID'', ''id''),
     (''Date'', ''date''),
     (''Channel / Chat'', ''channel''),
     (''Original Source'', ''original_source''),
     (''Category'', ''category''),
     (''Issue'', ''issue''),
     (''Owner'', ''owner''),
     (''Reply / Approach'', ''reply_approach''),
     (''Progress'', ''progress''),
     (''Result'', ''result''),
     (''Problem_Category'', ''problem_category'')]"

section \<open>utils/db.py: the SQLite store\<close>

text \<open>
  A stored value is NULL, an integer or a text. The table \<open>issues\<close> has the key
  \<open>id INTEGER PRIMARY KEY\<close> and ten columns declared \<open>TEXT\<close>; a row is its key
  and the values of those ten columns in the order of \<open>columns\<close>. The timestamp columns
  \<open>created_at\<close>, \<open>updated_at\<close> and \<open>sync_time\<close> are left out (the clock is
  not modelled). The list of rows keeps the order of insertion, newest first; no query of
  the module reads that order, every one sorts by \<open>id\<close>.
\<close>

datatype sqlval = Null | Integer int | Text string

type_synonym issue_row = "int \<times> sqlval list"

record database =
  issues_tbl :: "issue_row list"
  sync_log_tbl :: "(nat \<times> string \<times> string) list"

definition columns :: "string list" where
  "columns = [''id'', ''date'', ''channel'', ''original_source'', ''category'',
              ''issue'', ''owner'', ''reply_approach'', ''progress'', ''result'',
              ''problem_category'']"

text \<open>
  What the world outside the code decides. \<open>fault\<close> is the storage fault, if any,
  that SQLite raises at a step of a run (a locked file, a full disk, a failed write);
  \<open>int_of_text\<close> is SQLite's conversion of a text to an integer key, which fails on a
  text that is no number; \<open>remote\<close> is the outcome of the k-th call of the spreadsheet
  fetch.
\<close>

datatype step = InitDb | Connect | Delete | Insert nat | Commit | LogSuccess | LogFailed

record env =
  fault :: "step \<Rightarrow> exn option"
  int_of_text :: "string \<Rightarrow> int option"
  remote :: "nat \<Rightarrow> exn + pydict list"

text \<open>
  An open connection: the database file as every other reader sees it, and the table
  \<open>issues\<close> as the statements of the open transaction have left it (\<open>None\<close> when no
  transaction is open). The first data-changing statement opens the transaction.
\<close>

record connection =
  db_file :: database
  txn :: "issue_row list option"

definition connect :: "env \<Rightarrow> database \<Rightarrow> exn + connection" where
  "connect e db =
     (case fault e Connect of
        Some x \<Rightarrow> Inl x
      | None \<Rightarrow> Inr \<lparr>db_file = db, txn = None\<rparr>)"

definition current_issues :: "connection \<Rightarrow> issue_row list" where
  "current_issues conn =
     (case txn conn of None \<Rightarrow> issues_tbl (db_file conn) | Some t \<Rightarrow> t)"

definition commit :: "env \<Rightarrow> connection \<Rightarrow> (exn \<times> connection) + connection" where
  "commit e conn =
     (case fault e Commit of
        Some x \<Rightarrow> Inl (x, conn)
      | None \<Rightarrow>
          Inr \<lparr>db_file = (db_file conn)\<lparr>issues_tbl := current_issues conn\<rparr>, txn = None\<rparr>)"

definition rollback :: "connection \<Rightarrow> connection" where
  "rollback conn = conn\<lparr>txn := None\<rparr>"

text \<open>Closing a connection drops what its transaction has not committed.\<close>

definition close :: "connection \<Rightarrow> database" where
  "close conn = db_file conn"

text \<open>\<open>DELETE FROM issues\<close>.\<close>

definition execute_delete :: "env \<Rightarrow> connection \<Rightarrow> (exn \<times> connection) + connection" where
  "execute_delete e conn =
     (case fault e Delete of
        Some x \<Rightarrow> Inl (x, conn)
      | None \<Rightarrow> Inr (conn\<lparr>txn := Some []\<rparr>))"

text \<open>
  Binding a Python value to a parameter: an \<open>int\<close> outside 64 bits raises
  \<open>OverflowError\<close>.
\<close>

definition bind_param :: "pyval \<Rightarrow> exn + sqlval" where
  "bind_param v =
     (case v of
        PNone \<Rightarrow> Inr Null
      | PInt i \<Rightarrow>
          (if - (2 ^ 63) \<le> i \<and> i < 2 ^ 63 then Inr (Integer i)
           else Inl (OverflowError ''Python int too large to convert to SQLite INTEGER''))
      | PStr s \<Rightarrow> Inr (Text s))"

fun bind_params :: "pyval list \<Rightarrow> exn + sqlval list" where
  "bind_params [] = Inr []"
| "bind_params (v # vs) =
     (case bind_param v of
        Inl x \<Rightarrow> Inl x
      | Inr b \<Rightarrow> (case bind_params vs of Inl x \<Rightarrow> Inl x | Inr bs \<Rightarrow> Inr (b # bs)))"

text \<open>Decimal digits of a number, as SQLite writes an integer stored in a TEXT column.\<close>

fun digits_of_nat :: "nat \<Rightarrow> string" where
  "digits_of_nat n =
     (if n < 10 then [char_of (48 + n)]
      else digits_of_nat (n div 10) @ [char_of (48 + n mod 10)])"

definition str_of_int :: "int \<Rightarrow> string" where
  "str_of_int i =
     (if i < 0 then CHR ''-'' # digits_of_nat (nat (- i)) else digits_of_nat (nat i))"

definition text_affinity :: "sqlval \<Rightarrow> sqlval" where
  "text_affinity v = (case v of Integer i \<Rightarrow> Text (str_of_int i) | _ \<Rightarrow> v)"

text \<open>
  The key of a new row. NULL takes one more than the largest key in use, 1 in an empty
  table (at the largest 64-bit key SQLite probes for a free key and reports a full
  database when it finds none: the model takes that outcome). An integer is the key. A text
  is converted, and one that is no integer is the error \<open>datatype mismatch\<close>.
\<close>

definition next_rowid :: "issue_row list \<Rightarrow> exn + int" where
  "next_rowid tbl =
     (if tbl = [] then Inr 1
      else if Max (set (map fst tbl)) < 2 ^ 63 - 1 then Inr (Max (set (map fst tbl)) + 1)
      else Inl (OperationalError ''database or disk is full''))"

definition rowid_of :: "env \<Rightarrow> issue_row list \<Rightarrow> sqlval \<Rightarrow> exn + int" where
  "rowid_of e tbl v =
     (case v of
        Null \<Rightarrow> next_rowid tbl
      | Integer i \<Rightarrow> Inr i
      | Text s \<Rightarrow>
          (case int_of_text e s of
             Some i \<Rightarrow> Inr i
           | None \<Rightarrow> Inl (IntegrityError ''datatype mismatch'')))"

text \<open>\<open>INSERT OR REPLACE\<close>: a row with the same key is removed first.\<close>

definition upsert :: "issue_row \<Rightarrow> issue_row list \<Rightarrow> issue_row list" where
  "upsert r tbl = r # filter (\<lambda>q. fst q \<noteq> fst r) tbl"

text \<open>The i-th statement of \<open>executemany\<close>, on the table as the transaction sees it.\<close>

definition exec_insert ::
  "env \<Rightarrow> nat \<Rightarrow> pyval list \<Rightarrow> issue_row list \<Rightarrow> exn + issue_row list" where
  "exec_insert e i params tbl =
     (case fault e (Insert i) of
        Some x \<Rightarrow> Inl x
      | None \<Rightarrow>
          (case bind_params params of
             Inl x \<Rightarrow> Inl x
           | Inr [] \<Rightarrow> Inl (OperationalError ''Incorrect number of bindings supplied'')
           | Inr (k # vals) \<Rightarrow>
               (case rowid_of e tbl k of
                  Inl x \<Rightarrow> Inl x
                | Inr rid \<Rightarrow> Inr (upsert (rid, map text_affinity vals) tbl))))"

text \<open>
  \<open>cursor.executemany(sql, rows)\<close>: the rows in order. When a statement fails, the rows
  inserted before it stay in the open transaction.
\<close>

fun executemany ::
  "env \<Rightarrow> nat \<Rightarrow> pyval list list \<Rightarrow> connection \<Rightarrow> (exn \<times> connection) + connection" where
  "executemany e i [] conn = Inr conn"
| "executemany e i (r # rs) conn =
     (case exec_insert e i r (current_issues conn) of
        Inl x \<Rightarrow> Inl (x, conn)
      | Inr tbl \<Rightarrow> executemany e (Suc i) rs (conn\<lparr>txn := Some tbl\<rparr>))"

definition row_tuple :: "pydict \<Rightarrow> pyval list" where
  "row_tuple item = map (\<lambda>col. dict_get item col (PStr [])) columns"

text \<open>The body of the \<open>try\<close> of \<open>safe_replace_issues\<close>: delete, insert, commit.\<close>

definition safe_replace_try ::
  "env \<Rightarrow> connection \<Rightarrow> pyval list list \<Rightarrow> (exn \<times> connection) + connection" where
  "safe_replace_try e conn rows =
     (case execute_delete e conn of
        Inl f \<Rightarrow> Inl f
      | Inr c1 \<Rightarrow>
          (case executemany e 0 rows c1 of
             Inl f \<Rightarrow> Inl f
           | Inr c2 \<Rightarrow> commit e c2))"

text \<open>
  \<open>safe_replace_issues(issues)\<close>: the result or the exception raised, and the database
  file afterwards. The handler rolls back and raises again; \<open>finally\<close> closes.
\<close>

definition safe_replace_issues ::
  "env \<Rightarrow> database \<Rightarrow> pydict list \<Rightarrow> (exn + nat) \<times> database" where
  "safe_replace_issues e db issues =
     (if issues = [] then (Inr 0, db)
      else
        (let rows = map row_tuple issues in
         case connect e db of
           Inl x \<Rightarrow> (Inl x, db)
         | Inr conn \<Rightarrow>
             (case safe_replace_try e conn rows of
                Inr c \<Rightarrow> (Inr (length rows), close c)
              | Inl (x, c) \<Rightarrow> (Inl x, close (rollback c)))))"

text \<open>\<open>log_sync\<close>, given the fault (if any) the store raises during the call.\<close>

definition log_sync ::
  "exn option \<Rightarrow> database \<Rightarrow> nat \<Rightarrow> string \<Rightarrow> string \<Rightarrow> exn + database" where
  "log_sync flt db rows_synced status message =
     (case flt of
        Some x \<Rightarrow> Inl x
      | None \<Rightarrow>
          Inr (db\<lparr>sync_log_tbl := sync_log_tbl db @ [(rows_synced, status, message)]\<rparr>))"

text \<open>Reading: a stored row as the \<open>dict\<close> that \<open>dict(row)\<close> gives.\<close>

definition py_of_sql :: "sqlval \<Rightarrow> pyval" where
  "py_of_sql v = (case v of Null \<Rightarrow> PNone | Integer i \<Rightarrow> PInt i | Text s \<Rightarrow> PStr s)"

definition row_to_dict :: "issue_row \<Rightarrow> pydict" where
  "row_to_dict r = (''id'', PInt (fst r)) # zip (tl columns) (map py_of_sql (snd r))"

text \<open>\<open>ORDER BY id DESC\<close>.\<close>

definition order_by_id_desc :: "issue_row list \<Rightarrow> issue_row list" where
  "order_by_id_desc tbl = rev (sort_key fst tbl)"

definition get_all_issues :: "database \<Rightarrow> pydict list" where
  "get_all_issues db = map row_to_dict (order_by_id_desc (issues_tbl db))"

definition get_issues_count :: "database \<Rightarrow> nat" where
  "get_issues_count db = length (issues_tbl db)"

text \<open>
  The conditions of \<open>filter_issues\<close>. A column compared with a text parameter: NULL
  satisfies no comparison; texts compare by code points; an integer sorts before every
  text.
\<close>

datatype cmp = Eq | Ge | Le

fun str_le :: "string \<Rightarrow> string \<Rightarrow> bool" where
  "str_le [] t = True"
| "str_le (a # s) [] = False"
| "str_le (a # s) (b # t) = (if a = b then str_le s t else (of_char a :: nat) < of_char b)"

definition column_value :: "string \<Rightarrow> issue_row \<Rightarrow> sqlval" where
  "column_value col r =
     (if col = ''id'' then Integer (fst r) else dict_get (zip (tl columns) (snd r)) col Null)"

definition holds :: "issue_row \<Rightarrow> string \<times> cmp \<times> string \<Rightarrow> bool" where
  "holds r c =
     (case c of (col, op, p) \<Rightarrow>
        (case column_value col r of
           Null \<Rightarrow> False
         | Integer i \<Rightarrow> (op = Le)
         | Text s \<Rightarrow> (case op of Eq \<Rightarrow> s = p | Ge \<Rightarrow> str_le p s | Le \<Rightarrow> str_le s p)))"

text \<open>\<open>if category:\<close> and the like: \<open>None\<close> and the empty string are false.\<close>

definition condition ::
  "string \<Rightarrow> cmp \<Rightarrow> string option \<Rightarrow> (string \<times> cmp \<times> string) list" where
  "condition col op arg =
     (case arg of None \<Rightarrow> [] | Some p \<Rightarrow> if p = [] then [] else [(col, op, p)])"

definition filter_issues ::
  "database \<Rightarrow> string option \<Rightarrow> string option \<Rightarrow> string option \<Rightarrow> string option \<Rightarrow>
   string option \<Rightarrow> string option \<Rightarrow> pydict list" where
  "filter_issues db category progress owner date_from date_to problem_category =
     (let conditions =
            condition ''category'' Eq category @
            condition ''progress'' Eq progress @
            condition ''owner'' Eq owner @
            condition ''date'' Ge date_from @
            condition ''date'' Le date_to @
            condition ''problem_category'' Eq problem_category
      in map row_to_dict
           (filter (\<lambda>r. list_all (holds r) conditions) (order_by_id_desc (issues_tbl db))))"

section \<open>scripts/sync_google_sheets.py: the pipeline\<close>

definition MAX_RETRIES :: nat where
  "MAX_RETRIES = 3"

definition BASE_DELAY :: nat where
  "BASE_DELAY = 2"

text \<open>
  \<open>retry_on_error(func)\<close>. The k-th call of \<open>func\<close> has the outcome \<open>func k\<close>. The
  trace records each call and each \<open>time.sleep(delay)\<close> in order. A loop that ends
  without a return gives \<open>None\<close>.
\<close>

datatype event = Attempt nat | Sleep nat

fun retry_loop ::
  "(nat \<Rightarrow> exn + 'a) \<Rightarrow> nat list \<Rightarrow> event list \<Rightarrow> (exn + 'a option) \<times> event list" where
  "retry_loop func [] tr = (Inr None, tr)"
| "retry_loop func (attempt # rest) tr =
     (case func attempt of
        Inr v \<Rightarrow> (Inr (Some v), tr @ [Attempt attempt])
      | Inl x \<Rightarrow>
          (if attempt = MAX_RETRIES - 1 then (Inl x, tr @ [Attempt attempt])
           else retry_loop func rest
                  (tr @ [Attempt attempt, Sleep (BASE_DELAY * 2 ^ attempt)])))"

definition retry_on_error :: "(nat \<Rightarrow> exn + 'a) \<Rightarrow> (exn + 'a option) \<times> event list" where
  "retry_on_error func = retry_loop func [0..<MAX_RETRIES] []"

definition fetch_google_sheets_data :: "env \<Rightarrow> exn + pydict list option" where
  "fetch_google_sheets_data e = fst (retry_on_error (remote e))"

text \<open>
  \<open>transform_data(raw_data)\<close>: the loop carries the list built so far and the counter
  \<open>skipped\<close>; the function returns the list, the counter goes to the log.
\<close>

definition strip_value :: "pyval \<Rightarrow> pyval" where
  "strip_value v = (case v of PStr s \<Rightarrow> PStr (strip s) | _ \<Rightarrow> v)"

definition transform_row :: "pydict \<Rightarrow> pydict" where
  "transform_row row =
     map (\<lambda>m. (snd m, strip_value (dict_get row (fst m) (PStr [])))) COLUMN_MAPPING"

fun transform_loop :: "pydict list \<Rightarrow> pydict list \<times> nat \<Rightarrow> pydict list \<times> nat" where
  "transform_loop [] acc = acc"
| "transform_loop (row # raw) (transformed, skipped) =
     (let raw_id = dict_get row ''ID'' (PStr []) in
      if raw_id = PStr [] \<or> raw_id = PNone
      then transform_loop raw (transformed, skipped + 1)
      else transform_loop raw (transformed @ [transform_row row], skipped))"

definition transform_data :: "pydict list \<Rightarrow> pydict list" where
  "transform_data raw_data = fst (transform_loop raw_data ([], 0))"

definition skipped_count :: "pydict list \<Rightarrow> nat" where
  "skipped_count raw_data = snd (transform_loop raw_data ([], 0))"

text \<open>
  The \<open>try\<close> block of \<open>sync()\<close>: the database it leaves and, when it raises, the
  exception. \<open>init_database\<close> creates what is missing and changes no row.
\<close>

definition sync_try :: "env \<Rightarrow> database \<Rightarrow> (exn \<times> database) + database" where
  "sync_try e db =
     (case fault e InitDb of
        Some x \<Rightarrow> Inl (x, db)
      | None \<Rightarrow>
          (case fetch_google_sheets_data e of
             Inl x \<Rightarrow> Inl (x, db)
           | Inr None \<Rightarrow> Inl (TypeError ''NoneType object is not iterable'', db)
           | Inr (Some raw_data) \<Rightarrow>
               (case safe_replace_issues e db (transform_data raw_data) of
                  (Inl x, db1) \<Rightarrow> Inl (x, db1)
                | (Inr count, db1) \<Rightarrow>
                    (case log_sync (fault e LogSuccess) db1 count ''success''
                            ''Full sync completed'' of
                       Inl x \<Rightarrow> Inl (x, db1)
                     | Inr db2 \<Rightarrow> Inr db2))))"

text \<open>
  \<open>sync()\<close>: \<open>Inr True\<close> and \<open>Inr False\<close> are its two returns, \<open>Inl\<close> an exception
  that leaves the function.
\<close>

definition sync :: "env \<Rightarrow> database \<Rightarrow> (exn + bool) \<times> database" where
  "sync e db =
     (case sync_try e db of
        Inr db1 \<Rightarrow> (Inr True, db1)
      | Inl (x, db1) \<Rightarrow>
          (case log_sync (fault e LogFailed) db1 0 ''failed'' (str_exn x) of
             Inl y \<Rightarrow> (Inl y, db1)
           | Inr db2 \<Rightarrow> (Inr False, db2)))"

section \<open>Properties of rows, and concrete inputs\<close>

text \<open>
  The key a row is written under, and the rows that the store takes as they are: the key
  is a 64-bit integer and every other field is a string or \<open>None\<close>.
\<close>

definition row_id :: "pydict \<Rightarrow> pyval" where
  "row_id item = dict_get item ''id'' (PStr [])"

definition text_or_none :: "pyval \<Rightarrow> bool" where
  "text_or_none v = (case v of PInt i \<Rightarrow> False | _ \<Rightarrow> True)"

definition storable :: "pydict \<Rightarrow> bool" where
  "storable item =
     ((case row_id item of PInt i \<Rightarrow> - (2 ^ 63) \<le> i \<and> i < 2 ^ 63 | _ \<Rightarrow> False)
      \<and> list_all (\<lambda>col. text_or_none (dict_get item col (PStr []))) (tl columns))"

definition ids_of :: "pydict list \<Rightarrow> pyval list" where
  "ids_of ds = map row_id ds"

text \<open>The raw rows that \<open>transform_data\<close> skips.\<close>

definition id_missing :: "pydict \<Rightarrow> bool" where
  "id_missing row = (dict_get row ''ID'' (PStr []) = PStr [] \<or> dict_get row ''ID'' (PStr []) = PNone)"

text \<open>A store without faults, and stores that fail at one step.\<close>

definition no_fault :: "step \<Rightarrow> exn option" where
  "no_fault s = None"

definition fault_at :: "step \<Rightarrow> exn \<Rightarrow> step \<Rightarrow> exn option" where
  "fault_at s x t = (if t = s then Some x else None)"

text \<open>
  A conversion of texts to keys for the examples: a text of decimal digits is its number,
  any other text is no key. It agrees with SQLite on the texts the examples use, the empty
  text among them.
\<close>

definition digits_key :: "string \<Rightarrow> int option" where
  "digits_key s =
     (if s \<noteq> [] \<and> list_all (\<lambda>c. c \<in> set digit_chars) s then Some (int (int_of_group s))
      else None)"

definition remote_down :: "nat \<Rightarrow> exn + pydict list" where
  "remote_down k = Inl (RemoteError ''connection reset'')"

definition issue :: "int \<Rightarrow> string \<Rightarrow> string \<Rightarrow> pydict" where
  "issue i cat prog =
     [(''id'', PInt i), (''date'', PStr ''01/23/2026''), (''channel'', PStr ''rocm''),
      (''original_source'', PStr []), (''category'', PStr cat),
      (''issue'', PStr ''Test issue''), (''owner'', PStr ''Alice''),
      (''reply_approach'', PStr []), (''progress'', PStr prog),
      (''result'', PStr []), (''problem_category'', PStr ''Setup/Drivers'')]"

definition stored_issue :: "int \<Rightarrow> string \<Rightarrow> string \<Rightarrow> issue_row" where
  "stored_issue i cat prog =
     (i, [Text ''01/23/2026'', Text ''rocm'', Text [], Text cat, Text ''Test issue'',
          Text ''Alice'', Text [], Text prog, Text [], Text ''Setup/Drivers''])"

text \<open>A sheet of one row with a key, and a sheet with a second row whose ID cell holds one blank.\<close>

definition keyed_row :: pydict where
  "keyed_row = [(''ID'', PInt 1), (''Category'', PStr ''ROCm Issue''), (''Progress'', PStr ''done'')]"

definition blank_id_row :: pydict where
  "blank_id_row = [(''ID'', PStr '' ''), (''Category'', PStr ''no key'')]"

definition remote_rows :: "nat \<Rightarrow> exn + pydict list" where
  "remote_rows k = Inr [keyed_row]"

definition remote_blank_id :: "nat \<Rightarrow> exn + pydict list" where
  "remote_blank_id k = Inr [keyed_row, blank_id_row]"

definition env_ok :: env where
  "env_ok = \<lparr>fault = no_fault, int_of_text = digits_key, remote = remote_rows\<rparr>"

definition env_insert_fails :: env where
  "env_insert_fails =
     \<lparr>fault = fault_at (Insert 1) (OperationalError ''disk I/O error''),
      int_of_text = digits_key, remote = remote_rows\<rparr>"

definition env_store_down :: env where
  "env_store_down =
     \<lparr>fault = (\<lambda>s. if s = InitDb then None else Some (OperationalError ''database is locked'')),
      int_of_text = digits_key, remote = remote_down\<rparr>"

definition env_remote_down :: env where
  "env_remote_down = \<lparr>fault = no_fault, int_of_text = digits_key, remote = remote_down\<rparr>"

definition db_empty :: database where
  "db_empty = \<lparr>issues_tbl = [], sync_log_tbl = []\<rparr>"

definition db_two :: database where
  "db_two =
     \<lparr>issues_tbl = [stored_issue 8 ''Driver Issue'' ''Pending'',
                     stored_issue 7 ''ROCm Issue'' ''Done''],
      sync_log_tbl = [(2, ''success'', ''Full sync completed'')]\<rparr>"

definition three_issues :: "pydict list" where
  "three_issues =
     [issue 1 ''ROCm Issue'' ''Done'', issue 2 ''PyTorch Issue'' ''In Progress'',
      issue 3 ''Driver Issue'' ''Pending'']"

text \<open>What the store holds for a row that it takes as it is.\<close>

definition row_key :: "pydict \<Rightarrow> int" where
  "row_key item = (case row_id item of PInt i \<Rightarrow> i | _ \<Rightarrow> 0)"

definition stored_text :: "pyval \<Rightarrow> sqlval" where
  "stored_text v = (case v of PNone \<Rightarrow> Null | PInt i \<Rightarrow> Text (str_of_int i) | PStr s \<Rightarrow> Text s)"

definition stored_form :: "pydict \<Rightarrow> issue_row" where
  "stored_form item =
     (row_key item, map (\<lambda>col. stored_text (dict_get item col (PStr []))) (tl columns))"

definition dup_issues :: "pydict list" where
  "dup_issues = [issue 1 ''ROCm Issue'' ''Pending'', issue 1 ''ROCm Issue'' ''Done'']"

definition desc_issues :: "pydict list" where
  "desc_issues = [issue 2 ''PyTorch Issue'' ''In Progress'', issue 1 ''ROCm Issue'' ''Done'']"

text \<open>
  For \<open>filter_issues\<close>: an argument that the conditions skip, the rows whose column is
  the empty string, and a table of two rows that differ in their key and in the four
  columns compared for equality, which the first row has empty.
\<close>

definition falsy :: "string option \<Rightarrow> bool" where
  "falsy a = (a = None \<or> a = Some [])"

definition rows_with_empty :: "string \<Rightarrow> database \<Rightarrow> pydict list" where
  "rows_with_empty col db =
     map row_to_dict
       (filter (\<lambda>r. column_value col r = Text []) (order_by_id_desc (issues_tbl db)))"

definition row_blank :: issue_row where
  "row_blank =
     (1, [Text ''01/23/2026'', Text ''x'', Text ''x'', Text [], Text ''x'',
          Text [], Text ''x'', Text [], Text ''x'', Text []])"

definition row_full :: issue_row where
  "row_full =
     (2, [Text ''01/23/2026'', Text ''x'', Text ''x'', Text ''x'', Text ''x'',
          Text ''x'', Text ''x'', Text ''x'', Text ''x'', Text ''x''])"

definition db_blank :: database where
  "db_blank = \<lparr>issues_tbl = [row_blank, row_full], sync_log_tbl = []\<rparr>"

definition env_blank_id :: env where
  "env_blank_id = \<lparr>fault = no_fault, int_of_text = digits_key, remote = remote_blank_id\<rparr>"

section \<open>Evaluating the store on concrete inputs\<close>

lemmas store_eval =
  safe_replace_issues_def connect_def safe_replace_try_def execute_delete_def commit_def
  close_def rollback_def current_issues_def exec_insert_def bind_param_def rowid_of_def
  upsert_def text_affinity_def row_tuple_def columns_def dict_get_def issue_def
  stored_issue_def fault_at_def no_fault_def

section \<open>Progress normalisation\<close>

lemma strip_pad:
  assumes "list_all is_space l" "list_all is_space r" "k \<noteq> []" "\<not> is_space (hd k)" "\<not> is_space (last k)"
  shows "strip (l @ k @ r) = k"
proof -
  have a: "dropWhile is_space (l @ k @ r) = k @ r"
    using assms by (cases k) (auto simp: dropWhile_append3 list_all_iff dropWhile_append)
  have b: "dropWhile is_space (rev r @ rev k) = rev k"
    using assms by (cases k rule: rev_cases) (auto simp: list_all_iff dropWhile_append)
  show ?thesis by (simp add: strip_def a b)
qed

lemma strip_decomp: "\<exists>l r. list_all is_space l \<and> list_all is_space r \<and> s = l @ strip s @ r"
proof -
  let ?t = "dropWhile is_space s"
  have 1: "s = takeWhile is_space s @ ?t" by simp
  have 2: "?t = rev (dropWhile is_space (rev ?t)) @ rev (takeWhile is_space (rev ?t))"
    by (metis rev_append rev_rev_ident takeWhile_dropWhile_id)
  have 3: "list_all is_space (takeWhile is_space s)"
    by (simp add: list_all_iff) (meson set_takeWhileD)
  have 4: "list_all is_space (rev (takeWhile is_space (rev ?t)))"
    by (simp add: list_all_iff) (meson set_takeWhileD)
  from 1 2 have "s = takeWhile is_space s @ strip s @ rev (takeWhile is_space (rev ?t))"
    unfolding strip_def by metis
  with 3 4 show ?thesis by blast
qed

lemma progress_key_shape:
  assumes "(k, c) \<in> set PROGRESS_MAPPING"
  shows "k \<noteq> [] \<and> \<not> is_space (hd k) \<and> \<not> is_space (last k)"
proof -
  have "list_all (\<lambda>kc. fst kc \<noteq> [] \<and> \<not> is_space (hd (fst kc)) \<and> \<not> is_space (last (fst kc)))
          PROGRESS_MAPPING"
    by code_simp
  with assms show ?thesis by (force simp: list_all_iff)
qed

lemma progress_keys_distinct: "distinct (map fst PROGRESS_MAPPING)"
  by code_simp

lemma progress_values_canonical:
  "list_all (\<lambda>kc. snd kc \<in> set PROGRESS_VALUES) PROGRESS_MAPPING"
  by code_simp

lemma progress_key_lookup:
  assumes "(k, c) \<in> set PROGRESS_MAPPING"
  shows "dict_get PROGRESS_MAPPING k d = c \<and> c \<in> set PROGRESS_VALUES"
proof -
  have "map_of PROGRESS_MAPPING k = Some c"
    using assms progress_keys_distinct by (rule_tac map_of_is_SomeI)
  moreover have "c \<in> set PROGRESS_VALUES"
    using assms progress_values_canonical by (force simp: list_all_iff)
  ultimately show ?thesis by (simp add: dict_get_def)
qed

lemma progress_case_variants_all:
  "list_all (\<lambda>p. (p, p) \<in> set PROGRESS_MAPPING \<and> (map to_upper p, p) \<in> set PROGRESS_MAPPING
         \<and> (map to_lower p, p) \<in> set PROGRESS_MAPPING) PROGRESS_VALUES"
  by code_simp

lemma normalize_padded:
  assumes "list_all is_space l" "list_all is_space r" "(k, c) \<in> set PROGRESS_MAPPING"
  shows "normalize_progress (Some (l @ k @ r)) = c"
  using assms progress_key_shape[OF assms(3)] progress_key_lookup[OF assms(3)]
  by (simp add: normalize_progress_def strip_pad)

lemma progress_case_variants:
  assumes "p \<in> set PROGRESS_VALUES"
  shows "(p, p) \<in> set PROGRESS_MAPPING \<and> (map to_upper p, p) \<in> set PROGRESS_MAPPING
         \<and> (map to_lower p, p) \<in> set PROGRESS_MAPPING"
  using assms progress_case_variants_all by (force simp: list_all_iff)

lemma normalize_other:
  assumes "\<not> (\<exists>l k r. list_all is_space l \<and> list_all is_space r \<and> k \<in> fst ` set PROGRESS_MAPPING \<and> s = l @ k @ r)"
  shows "normalize_progress (Some s) = ''Unknown''"
proof -
  obtain l r where "list_all is_space l" "list_all is_space r" "s = l @ strip s @ r"
    using strip_decomp by blast
  with assms have "strip s \<notin> fst ` set PROGRESS_MAPPING" by blast
  then have "map_of PROGRESS_MAPPING (strip s) = None"
    by (simp add: map_of_eq_None_iff)
  then show ?thesis by (simp add: normalize_progress_def dict_get_def)
qed

lemma key_not_padded:
  assumes "strip s \<notin> fst ` set PROGRESS_MAPPING"
  shows "\<nexists>l' k r'. list_all is_space l' \<and> list_all is_space r'
            \<and> k \<in> fst ` set PROGRESS_MAPPING \<and> s = l' @ k @ r'"
proof
  assume "\<exists>l' k r'. list_all is_space l' \<and> list_all is_space r'
            \<and> k \<in> fst ` set PROGRESS_MAPPING \<and> s = l' @ k @ r'"
  then obtain l' k r' where h: "list_all is_space l'" "list_all is_space r'"
     "k \<in> fst ` set PROGRESS_MAPPING" "s = l' @ k @ r'" by blast
  from h(3) obtain c where "(k, c) \<in> set PROGRESS_MAPPING" by auto
  from progress_key_shape[OF this] h have "strip s = k" by (simp add: strip_pad)
  with h(3) assms show False by simp
qed

text \<open>
  Claim C3. \<open>normalize_progress\<close> is a total function. With any whitespace \<open>l\<close>
  before and \<open>r\<close> after: every key of the table gives its canonical value, one of
  Done, In Progress, Pending, Blocked; each of these four phrases gives itself in its
  standard casing, in capitals and in lower case; block, Block and blocked give Blocked.
  \<open>None\<close> and the empty string give Unknown, and so does every string that is not a
  key of the table between whitespace.
\<close>

theorem normalize_progress_known_variants:
  assumes "list_all is_space l" and "list_all is_space r"
  shows
    "(\<forall>k c. (k, c) \<in> set PROGRESS_MAPPING \<longrightarrow>
        normalize_progress (Some (l @ k @ r)) = c \<and> c \<in> set PROGRESS_VALUES)
     \<and> (\<forall>p \<in> set PROGRESS_VALUES.
          normalize_progress (Some (l @ p @ r)) = p
          \<and> normalize_progress (Some (l @ map to_upper p @ r)) = p
          \<and> normalize_progress (Some (l @ map to_lower p @ r)) = p)
     \<and> normalize_progress (Some (l @ ''block'' @ r)) = ''Blocked''
     \<and> normalize_progress (Some (l @ ''Block'' @ r)) = ''Blocked''
     \<and> normalize_progress (Some (l @ ''blocked'' @ r)) = ''Blocked''
     \<and> normalize_progress None = ''Unknown''
     \<and> normalize_progress (Some []) = ''Unknown''
     \<and> ((\<nexists>l' k r'. list_all is_space l' \<and> list_all is_space r'
            \<and> k \<in> fst ` set PROGRESS_MAPPING \<and> s = l' @ k @ r')
          \<longrightarrow> normalize_progress (Some s) = ''Unknown'')"
proof -
  have a: "\<forall>k c. (k, c) \<in> set PROGRESS_MAPPING \<longrightarrow>
        normalize_progress (Some (l @ k @ r)) = c \<and> c \<in> set PROGRESS_VALUES"
    using assms normalize_padded progress_key_lookup by blast
  have b: "\<forall>p \<in> set PROGRESS_VALUES.
          normalize_progress (Some (l @ p @ r)) = p
          \<and> normalize_progress (Some (l @ map to_upper p @ r)) = p
          \<and> normalize_progress (Some (l @ map to_lower p @ r)) = p"
    using assms normalize_padded progress_case_variants by blast
  have m: "(''block'', ''Blocked'') \<in> set PROGRESS_MAPPING"
    "(''Block'', ''Blocked'') \<in> set PROGRESS_MAPPING"
    "(''blocked'', ''Blocked'') \<in> set PROGRESS_MAPPING"
    by code_simp+
  have c: "normalize_progress (Some (l @ ''block'' @ r)) = ''Blocked''"
    "normalize_progress (Some (l @ ''Block'' @ r)) = ''Blocked''"
    "normalize_progress (Some (l @ ''blocked'' @ r)) = ''Blocked''"
    using assms m normalize_padded by blast+
  have d: "normalize_progress None = ''Unknown''" "normalize_progress (Some []) = ''Unknown''"
    by code_simp+
  have e: "(\<nexists>l' k r'. list_all is_space l' \<and> list_all is_space r'
            \<and> k \<in> fst ` set PROGRESS_MAPPING \<and> s = l' @ k @ r')
          \<longrightarrow> normalize_progress (Some s) = ''Unknown''"
    using normalize_other by blast
  from a b c d e show ?thesis by blast
qed

theorem normalize_progress_known_variants_witness:
  "list_all is_space ''  '' \<and> list_all is_space [CHR 0x09] 
   \<and> normalize_progress (Some (''  '' @ ''IN PROGRESS'' @ [CHR 0x09])) = ''In Progress''
   \<and> normalize_progress (Some (''  '' @ map to_upper ''Pending'' @ [CHR 0x09])) = ''Pending''
   \<and> normalize_progress (Some ''BLOCK'') = ''Unknown''"
proof -
  have l: "list_all is_space ''  ''" and r: "list_all is_space [CHR 0x09]"
    by code_simp+
  have k: "(''IN PROGRESS'', ''In Progress'') \<in> set PROGRESS_MAPPING"
    and p: "''Pending'' \<in> set PROGRESS_VALUES"
    by code_simp+
  have s: "strip ''BLOCK'' \<notin> fst ` set PROGRESS_MAPPING"
    by code_simp
  note t = normalize_progress_known_variants[OF l r, of "''BLOCK''"]
  from t k have 1: "normalize_progress (Some (''  '' @ ''IN PROGRESS'' @ [CHR 0x09])) = ''In Progress''"
    by blast
  from t p have 2: "normalize_progress (Some (''  '' @ map to_upper ''Pending'' @ [CHR 0x09])) = ''Pending''"
    by blast
  from t key_not_padded[OF s] have 3: "normalize_progress (Some ''BLOCK'') = ''Unknown''"
    by blast
  from l r 1 2 3 show ?thesis by blast
qed

section \<open>Date parsing\<close>

lemma datetime_date_error:
  "datetime_date y m d = Inl x \<Longrightarrow> \<exists>msg. x = ValueError msg"
  by (auto simp: datetime_date_def split: if_splits)

lemma datetime_date_fields:
  "datetime_date y m d = Inr dt \<Longrightarrow>
     year dt = y \<and> month dt = m \<and> day dt = d \<and> 1 \<le> m \<and> m \<le> 12 \<and> 1 \<le> d
     \<and> d \<le> days_in_month y m \<and> 1 \<le> y \<and> y \<le> 9999"
  by (auto simp: datetime_date_def split: if_splits)

lemma strptime_error:
  "strptime s fmt = Inl x \<Longrightarrow> \<exists>msg. x = ValueError msg"
  by (auto simp: strptime_def split: option.splits list.splits if_splits dest: datetime_date_error)

lemma try_formats_Cons:
  "try_formats c (fmt # fmts) =
     (case strptime c fmt of Inr dt \<Rightarrow> Some dt | Inl x \<Rightarrow> try_formats c fmts)"
proof (cases "strptime c fmt")
  case (Inl x)
  then obtain msg where "x = ValueError msg" using strptime_error by blast
  with Inl show ?thesis by simp
next
  case (Inr dt)
  then show ?thesis by simp
qed

lemma parse_date_chain:
  assumes "s \<noteq> []"
  shows "parse_date (Some s) =
     (case strptime (strip s) ''%m/%d/%Y'' of Inr dt \<Rightarrow> Some dt | Inl x \<Rightarrow>
      (case strptime (strip s) ''%Y-%m-%d'' of Inr dt \<Rightarrow> Some dt | Inl x \<Rightarrow>
       (case strptime (strip s) ''%m/%d/%y'' of Inr dt \<Rightarrow> Some dt | Inl x \<Rightarrow>
        (case strptime (strip s) ''%d/%m/%Y'' of Inr dt \<Rightarrow> Some dt | Inl x \<Rightarrow> None))))"
proof -
  have "try_formats (strip s) DATE_FORMATS =
     (case strptime (strip s) ''%m/%d/%Y'' of Inr dt \<Rightarrow> Some dt | Inl x \<Rightarrow>
      (case strptime (strip s) ''%Y-%m-%d'' of Inr dt \<Rightarrow> Some dt | Inl x \<Rightarrow>
       (case strptime (strip s) ''%m/%d/%y'' of Inr dt \<Rightarrow> Some dt | Inl x \<Rightarrow>
        (case strptime (strip s) ''%d/%m/%Y'' of Inr dt \<Rightarrow> Some dt | Inl x \<Rightarrow> None))))"
    unfolding DATE_FORMATS_def try_formats_Cons try_formats.simps(1) by (rule refl)
  then show ?thesis using assms by (simp add: parse_date_def)
qed

lemma match_seq_sound:
  "match_seq alt s = Some (m, r) \<Longrightarrow> s = m @ r \<and> list_all2 (\<lambda>ch cl. ch \<in> set cl) m alt"
  by (induction alt s arbitrary: m r rule: match_seq.induct)
     (auto split: if_splits option.splits)

lemma match_directive_sound:
  assumes "(m, r) \<in> set (match_directive d s)"
  shows "s = m @ r \<and> (\<exists>alt \<in> set (regex_of d). list_all2 (\<lambda>ch cl. ch \<in> set cl) m alt)"
proof -
  from assms obtain alt where "alt \<in> set (regex_of d)" "match_seq alt s = Some (m, r)"
    by (auto simp: match_directive_def List.map_filter_def)
  then show ?thesis using match_seq_sound by blast
qed

lemma match_literal:
  assumes "(m, r) \<in> set (match_directive (Lit x) s)"
  shows "m = [x] \<and> s = x # r"
  using match_directive_sound[OF assms]
  by (auto simp: regex_of_def list_all2_Cons2)

lemma match_year4:
  assumes "(m, r) \<in> set (match_directive DY s)"
  shows "length m = 4 \<and> set m \<subseteq> set digit_chars"
  using match_directive_sound[OF assms]
  by (auto simp: regex_of_def list_all2_Cons2)

lemma match_year2:
  assumes "(m, r) \<in> set (match_directive Dy s)"
  shows "length m = 2 \<and> set m \<subseteq> set digit_chars"
  using match_directive_sound[OF assms]
  by (auto simp: regex_of_def list_all2_Cons2)

lemma match_format_Cons_mem:
  "(gs, rest) \<in> set (match_format (d # ds) s) \<longleftrightarrow>
     (\<exists>m r g. (m, r) \<in> set (match_directive d s) \<and> (g, rest) \<in> set (match_format ds r)
        \<and> gs = (d, m) # g)"
  by force

lemma match_three_fields:
  assumes "(gs, rest) \<in> set (match_format [d1, Lit x, d2, Lit y, d3] s)"
  shows "\<exists>a b c ra rb. gs = [(d1, a), (Lit x, [x]), (d2, b), (Lit y, [y]), (d3, c)]
           \<and> s = a @ [x] @ b @ [y] @ c @ rest
           \<and> (a, ra) \<in> set (match_directive d1 s)
           \<and> (b, rb) \<in> set (match_directive d2 (b @ [y] @ c @ rest))
           \<and> (c, rest) \<in> set (match_directive d3 (c @ rest))"
proof -
  from assms obtain a r1 g1 where 1: "(a, r1) \<in> set (match_directive d1 s)"
    "(g1, rest) \<in> set (match_format [Lit x, d2, Lit y, d3] r1)" "gs = (d1, a) # g1"
    unfolding match_format_Cons_mem by blast
  from 1(2) obtain l1 r2 g2 where 2: "(l1, r2) \<in> set (match_directive (Lit x) r1)"
    "(g2, rest) \<in> set (match_format [d2, Lit y, d3] r2)" "g1 = (Lit x, l1) # g2"
    unfolding match_format_Cons_mem by blast
  from 2(2) obtain b r3 g3 where 3: "(b, r3) \<in> set (match_directive d2 r2)"
    "(g3, rest) \<in> set (match_format [Lit y, d3] r3)" "g2 = (d2, b) # g3"
    unfolding match_format_Cons_mem by blast
  from 3(2) obtain l2 r4 g4 where 4: "(l2, r4) \<in> set (match_directive (Lit y) r3)"
    "(g4, rest) \<in> set (match_format [d3] r4)" "g3 = (Lit y, l2) # g4"
    unfolding match_format_Cons_mem by blast
  from 4(2) obtain c r5 where 5: "(c, r5) \<in> set (match_directive d3 r4)"
    "g4 = [(d3, c)]" "r5 = rest"
    unfolding match_format_Cons_mem by auto
  have s1: "s = a @ r1" using match_directive_sound[OF 1(1)] by simp
  have s2: "l1 = [x]" "r1 = x # r2" using match_literal[OF 2(1)] by simp_all
  have s3: "r2 = b @ r3" using match_directive_sound[OF 3(1)] by simp
  have s4: "l2 = [y]" "r3 = y # r4" using match_literal[OF 4(1)] by simp_all
  have s5: "r4 = c @ rest" using match_directive_sound[OF 5(1)] 5(3) by simp
  have "gs = [(d1, a), (Lit x, [x]), (d2, b), (Lit y, [y]), (d3, c)]"
    using 1(3) 2(3) 3(3) 4(3) 5(2) s2 s4 by simp
  moreover have "s = a @ [x] @ b @ [y] @ c @ rest"
    using s1 s2 s3 s4 s5 by simp
  moreover have "(b, r3) \<in> set (match_directive d2 (b @ [y] @ c @ rest))"
    using 3(1) s3 s4 s5 by simp
  moreover have "(c, rest) \<in> set (match_directive d3 (c @ rest))"
    using 5 s5 by simp
  ultimately show ?thesis using 1(1) by blast
qed

lemma strptime_three_fields:
  assumes "compile_format fmt = Some [d1, Lit x, d2, Lit y, d3]"
    and "strptime s fmt = Inr dt"
  shows "\<exists>a b c ra rb gs. gs = [(d1, a), (Lit x, [x]), (d2, b), (Lit y, [y]), (d3, c)]
           \<and> s = a @ [x] @ b @ [y] @ c
           \<and> (a, ra) \<in> set (match_directive d1 s)
           \<and> (b, rb) \<in> set (match_directive d2 (b @ [y] @ c))
           \<and> (c, []) \<in> set (match_directive d3 c)
           \<and> datetime_date (group_year gs) (group_field gs Dm) (group_field gs Dd) = Inr dt"
proof -
  from assms obtain gs rest tl where m: "match_format [d1, Lit x, d2, Lit y, d3] s = (gs, rest) # tl"
    and r: "rest = []"
    and d: "datetime_date (group_year gs) (group_field gs Dm) (group_field gs Dd) = Inr dt"
    by (auto simp: strptime_def split: list.splits if_splits)
  from m have "(gs, rest) \<in> set (match_format [d1, Lit x, d2, Lit y, d3] s)" by simp
  from match_three_fields[OF this] r d show ?thesis by auto
qed

lemma compile_formats:
  "compile_format ''%m/%d/%Y'' = Some [Dm, Lit (CHR ''/''), Dd, Lit (CHR ''/''), DY]"
  "compile_format ''%Y-%m-%d'' = Some [DY, Lit (CHR ''-''), Dm, Lit (CHR ''-''), Dd]"
  "compile_format ''%m/%d/%y'' = Some [Dm, Lit (CHR ''/''), Dd, Lit (CHR ''/''), Dy]"
  "compile_format ''%d/%m/%Y'' = Some [Dd, Lit (CHR ''/''), Dm, Lit (CHR ''/''), DY]"
  by code_simp+

lemma strptime_mdY:
  assumes "strptime t ''%m/%d/%Y'' = Inr dt"
  shows "\<exists>a b c. t = a @ ''/'' @ b @ ''/'' @ c \<and> length c = 4
           \<and> month dt = int_of_group a \<and> day dt = int_of_group b \<and> year dt = int_of_group c"
proof -
  from strptime_three_fields[OF compile_formats(1) assms] obtain a b c gs where
    g: "gs = [(Dm, a), (Lit (CHR ''/''), ''/''), (Dd, b), (Lit (CHR ''/''), ''/''), (DY, c)]"
    and t: "t = a @ ''/'' @ b @ ''/'' @ c"
    and y: "(c, []) \<in> set (match_directive DY c)"
    and d: "datetime_date (group_year gs) (group_field gs Dm) (group_field gs Dd) = Inr dt"
    by auto
  have "group_year gs = int_of_group c" "group_field gs Dm = int_of_group a"
    "group_field gs Dd = int_of_group b"
    by (simp_all add: g group_year_def group_field_def)
  with datetime_date_fields[OF d] match_year4[OF y] t show ?thesis by auto
qed

lemma strptime_Ymd:
  assumes "strptime t ''%Y-%m-%d'' = Inr dt"
  shows "\<exists>a b c. t = a @ ''-'' @ b @ ''-'' @ c \<and> length a = 4
           \<and> year dt = int_of_group a \<and> month dt = int_of_group b \<and> day dt = int_of_group c"
proof -
  from strptime_three_fields[OF compile_formats(2) assms] obtain a b c ra gs where
    g: "gs = [(DY, a), (Lit (CHR ''-''), ''-''), (Dm, b), (Lit (CHR ''-''), ''-''), (Dd, c)]"
    and t: "t = a @ ''-'' @ b @ ''-'' @ c"
    and y: "(a, ra) \<in> set (match_directive DY t)"
    and d: "datetime_date (group_year gs) (group_field gs Dm) (group_field gs Dd) = Inr dt"
    by auto
  have "group_year gs = int_of_group a" "group_field gs Dm = int_of_group b"
    "group_field gs Dd = int_of_group c"
    by (simp_all add: g group_year_def group_field_def)
  with datetime_date_fields[OF d] match_year4[OF y] t show ?thesis by auto
qed

lemma strptime_mdy:
  assumes "strptime t ''%m/%d/%y'' = Inr dt"
  shows "\<exists>a b c. t = a @ ''/'' @ b @ ''/'' @ c \<and> length c = 2
           \<and> month dt = int_of_group a \<and> day dt = int_of_group b
           \<and> year dt = (if int_of_group c \<le> 68 then int_of_group c + 2000
                         else int_of_group c + 1900)"
proof -
  from strptime_three_fields[OF compile_formats(3) assms] obtain a b c gs where
    g: "gs = [(Dm, a), (Lit (CHR ''/''), ''/''), (Dd, b), (Lit (CHR ''/''), ''/''), (Dy, c)]"
    and t: "t = a @ ''/'' @ b @ ''/'' @ c"
    and y: "(c, []) \<in> set (match_directive Dy c)"
    and d: "datetime_date (group_year gs) (group_field gs Dm) (group_field gs Dd) = Inr dt"
    by auto
  have "group_year gs = (if int_of_group c \<le> 68 then int_of_group c + 2000
                         else int_of_group c + 1900)"
    "group_field gs Dm = int_of_group a" "group_field gs Dd = int_of_group b"
    by (simp_all add: g group_year_def group_field_def)
  with datetime_date_fields[OF d] match_year2[OF y] t show ?thesis by auto
qed

lemma strptime_dmY:
  assumes "strptime t ''%d/%m/%Y'' = Inr dt"
  shows "\<exists>a b c. t = a @ ''/'' @ b @ ''/'' @ c \<and> length c = 4
           \<and> day dt = int_of_group a \<and> month dt = int_of_group b \<and> year dt = int_of_group c"
proof -
  from strptime_three_fields[OF compile_formats(4) assms] obtain a b c gs where
    g: "gs = [(Dd, a), (Lit (CHR ''/''), ''/''), (Dm, b), (Lit (CHR ''/''), ''/''), (DY, c)]"
    and t: "t = a @ ''/'' @ b @ ''/'' @ c"
    and y: "(c, []) \<in> set (match_directive DY c)"
    and d: "datetime_date (group_year gs) (group_field gs Dm) (group_field gs Dd) = Inr dt"
    by auto
  have "group_year gs = int_of_group c" "group_field gs Dm = int_of_group b"
    "group_field gs Dd = int_of_group a"
    by (simp_all add: g group_year_def group_field_def)
  with datetime_date_fields[OF d] match_year4[OF y] t show ?thesis by auto
qed

lemma parse_date_no_match:
  assumes "\<forall>f \<in> set DATE_FORMATS. \<exists>x. strptime (strip s) f = Inl x"
  shows "parse_date (Some s) = None"
proof (cases "s = []")
  case True
  then show ?thesis by (simp add: parse_date_def)
next
  case False
  from assms obtain x1 x2 x3 x4 where
    "strptime (strip s) ''%m/%d/%Y'' = Inl x1" "strptime (strip s) ''%Y-%m-%d'' = Inl x2"
    "strptime (strip s) ''%m/%d/%y'' = Inl x3" "strptime (strip s) ''%d/%m/%Y'' = Inl x4"
    unfolding DATE_FORMATS_def by auto
  then show ?thesis by (simp add: parse_date_chain[OF False])
qed

lemma parse_date_ambiguous:
  "parse_date (Some ''01/02/2026'') = Some \<lparr>year = 2026, month = 1, day = 2\<rparr>"
  "strptime ''01/02/2026'' ''%d/%m/%Y'' = Inr \<lparr>year = 2026, month = 2, day = 1\<rparr>"
  by code_simp+

lemma date_examples:
  "strptime (strip '' 01/23/2026 '') ''%m/%d/%Y'' = Inr \<lparr>year = 2026, month = 1, day = 23\<rparr>"
  "list_all (\<lambda>f. case strptime (strip ''not a date'') f of Inl x \<Rightarrow> True | Inr dt \<Rightarrow> False)
     DATE_FORMATS"
  "strptime ''2026-01-23'' ''%Y-%m-%d'' = Inr \<lparr>year = 2026, month = 1, day = 23\<rparr>"
  "strptime ''01/23/26'' ''%m/%d/%y'' = Inr \<lparr>year = 2026, month = 1, day = 23\<rparr>"
  "strptime ''23/01/2026'' ''%d/%m/%Y'' = Inr \<lparr>year = 2026, month = 1, day = 23\<rparr>"
  by code_simp+

text \<open>
  Claim C7. \<open>parse_date\<close> is a total function. \<open>None\<close> and the empty string give
  \<open>None\<close>. Any other string is stripped and tried against the four formats in the
  order month/day/4-digit year, year-month-day, month/day/2-digit year, day/month/4-digit
  year; the first format that parses gives the result, and when none parses the result is
  \<open>None\<close>. A date parsed by a format has its month, day and year from the fields of
  that format, so a string that parses month-first is read month-first whatever the
  later formats would make of it: \<open>01/02/2026\<close> is the second of January, although
  the day-first format parses it too.
\<close>

theorem parse_date_priority:
  "parse_date None = None \<and> parse_date (Some []) = None
   \<and> (s \<noteq> [] \<longrightarrow>
        parse_date (Some s) =
          (case strptime (strip s) ''%m/%d/%Y'' of Inr dt \<Rightarrow> Some dt | Inl x \<Rightarrow>
           (case strptime (strip s) ''%Y-%m-%d'' of Inr dt \<Rightarrow> Some dt | Inl x \<Rightarrow>
            (case strptime (strip s) ''%m/%d/%y'' of Inr dt \<Rightarrow> Some dt | Inl x \<Rightarrow>
             (case strptime (strip s) ''%d/%m/%Y'' of Inr dt \<Rightarrow> Some dt | Inl x \<Rightarrow> None)))))
   \<and> (s \<noteq> [] \<and> strptime (strip s) ''%m/%d/%Y'' = Inr d1 \<longrightarrow>
        parse_date (Some s) = Some d1
        \<and> (\<exists>a b c. strip s = a @ ''/'' @ b @ ''/'' @ c \<and> length c = 4
              \<and> month d1 = int_of_group a \<and> day d1 = int_of_group b
              \<and> year d1 = int_of_group c))
   \<and> (strptime t ''%Y-%m-%d'' = Inr d2 \<longrightarrow>
        (\<exists>a b c. t = a @ ''-'' @ b @ ''-'' @ c \<and> length a = 4
              \<and> year d2 = int_of_group a \<and> month d2 = int_of_group b
              \<and> day d2 = int_of_group c))
   \<and> (strptime t ''%m/%d/%y'' = Inr d3 \<longrightarrow>
        (\<exists>a b c. t = a @ ''/'' @ b @ ''/'' @ c \<and> length c = 2
              \<and> month d3 = int_of_group a \<and> day d3 = int_of_group b
              \<and> year d3 = (if int_of_group c \<le> 68 then int_of_group c + 2000
                             else int_of_group c + 1900)))
   \<and> (strptime t ''%d/%m/%Y'' = Inr d4 \<longrightarrow>
        (\<exists>a b c. t = a @ ''/'' @ b @ ''/'' @ c \<and> length c = 4
              \<and> day d4 = int_of_group a \<and> month d4 = int_of_group b
              \<and> year d4 = int_of_group c))
   \<and> parse_date (Some ''01/02/2026'') = Some \<lparr>year = 2026, month = 1, day = 2\<rparr>
   \<and> strptime ''01/02/2026'' ''%d/%m/%Y'' = Inr \<lparr>year = 2026, month = 2, day = 1\<rparr>
   \<and> ((\<forall>f \<in> set DATE_FORMATS. \<exists>x. strptime (strip s) f = Inl x)
        \<longrightarrow> parse_date (Some s) = None)"
proof (intro conjI impI)
  show "parse_date None = None" "parse_date (Some []) = None"
    by (simp_all add: parse_date_def)
next
  assume "s \<noteq> []"
  then show "parse_date (Some s) =
          (case strptime (strip s) ''%m/%d/%Y'' of Inr dt \<Rightarrow> Some dt | Inl x \<Rightarrow>
           (case strptime (strip s) ''%Y-%m-%d'' of Inr dt \<Rightarrow> Some dt | Inl x \<Rightarrow>
            (case strptime (strip s) ''%m/%d/%y'' of Inr dt \<Rightarrow> Some dt | Inl x \<Rightarrow>
             (case strptime (strip s) ''%d/%m/%Y'' of Inr dt \<Rightarrow> Some dt | Inl x \<Rightarrow> None))))"
    by (rule parse_date_chain)
next
  assume h: "s \<noteq> [] \<and> strptime (strip s) ''%m/%d/%Y'' = Inr d1"
  then show "parse_date (Some s) = Some d1"
    by (simp add: parse_date_chain)
  from h show "\<exists>a b c. strip s = a @ ''/'' @ b @ ''/'' @ c \<and> length c = 4
              \<and> month d1 = int_of_group a \<and> day d1 = int_of_group b
              \<and> year d1 = int_of_group c"
    using strptime_mdY by blast
next
  assume "strptime t ''%Y-%m-%d'' = Inr d2"
  then show "\<exists>a b c. t = a @ ''-'' @ b @ ''-'' @ c \<and> length a = 4
              \<and> year d2 = int_of_group a \<and> month d2 = int_of_group b
              \<and> day d2 = int_of_group c"
    by (rule strptime_Ymd)
next
  assume "strptime t ''%m/%d/%y'' = Inr d3"
  then show "\<exists>a b c. t = a @ ''/'' @ b @ ''/'' @ c \<and> length c = 2
              \<and> month d3 = int_of_group a \<and> day d3 = int_of_group b
              \<and> year d3 = (if int_of_group c \<le> 68 then int_of_group c + 2000
                             else int_of_group c + 1900)"
    by (rule strptime_mdy)
next
  assume "strptime t ''%d/%m/%Y'' = Inr d4"
  then show "\<exists>a b c. t = a @ ''/'' @ b @ ''/'' @ c \<and> length c = 4
              \<and> day d4 = int_of_group a \<and> month d4 = int_of_group b
              \<and> year d4 = int_of_group c"
    by (rule strptime_dmY)
next
  show "parse_date (Some ''01/02/2026'') = Some \<lparr>year = 2026, month = 1, day = 2\<rparr>"
    "strptime ''01/02/2026'' ''%d/%m/%Y'' = Inr \<lparr>year = 2026, month = 2, day = 1\<rparr>"
    by (rule parse_date_ambiguous)+
next
  assume "\<forall>f \<in> set DATE_FORMATS. \<exists>x. strptime (strip s) f = Inl x"
  then show "parse_date (Some s) = None" by (rule parse_date_no_match)
qed

theorem parse_date_priority_witness:
  "'' 01/23/2026 '' \<noteq> []
   \<and> strptime (strip '' 01/23/2026 '') ''%m/%d/%Y'' = Inr \<lparr>year = 2026, month = 1, day = 23\<rparr>
   \<and> parse_date (Some '' 01/23/2026 '') = Some \<lparr>year = 2026, month = 1, day = 23\<rparr>
   \<and> strptime ''2026-01-23'' ''%Y-%m-%d'' = Inr \<lparr>year = 2026, month = 1, day = 23\<rparr>
   \<and> strptime ''01/23/26'' ''%m/%d/%y'' = Inr \<lparr>year = 2026, month = 1, day = 23\<rparr>
   \<and> strptime ''23/01/2026'' ''%d/%m/%Y'' = Inr \<lparr>year = 2026, month = 1, day = 23\<rparr>
   \<and> parse_date (Some ''not a date'') = None"
proof -
  have n: "'' 01/23/2026 '' \<noteq> []" by simp
  note e = date_examples
  from parse_date_priority[of "'' 01/23/2026 ''" "\<lparr>year = 2026, month = 1, day = 23\<rparr>"] n e(1)
  have 1: "parse_date (Some '' 01/23/2026 '') = Some \<lparr>year = 2026, month = 1, day = 23\<rparr>"
    by blast
  have "\<forall>f \<in> set DATE_FORMATS. \<exists>x. strptime (strip ''not a date'') f = Inl x"
  proof
    fix f assume "f \<in> set DATE_FORMATS"
    with e(2) have "case strptime (strip ''not a date'') f of Inl x \<Rightarrow> True | Inr dt \<Rightarrow> False"
      by (simp add: list_all_iff)
    then show "\<exists>x. strptime (strip ''not a date'') f = Inl x"
      by (cases "strptime (strip ''not a date'') f") simp_all
  qed
  with parse_date_priority[of "''not a date''"]
  have 2: "parse_date (Some ''not a date'') = None" by blast
  from n e(1) 1 e(3) e(4) e(5) 2 show ?thesis by blast
qed

section \<open>The retry loop\<close>

text \<open>
  Claim C4. When the wrapped operation fails at each of the three attempts,
  \<open>retry_on_error\<close> calls it three times, sleeps \<open>BASE_DELAY * 2 ^ attempt\<close> after
  the first and after the second failure (2 and 4 seconds), does not sleep after the third,
  and raises the exception of the third attempt.
\<close>

theorem retry_on_error_all_fail:
  assumes "\<And>k. k < MAX_RETRIES \<Longrightarrow> func k = Inl (err k)"
  shows "retry_on_error func =
           (Inl (err 2),
            [Attempt 0, Sleep (BASE_DELAY * 2 ^ 0), Attempt 1, Sleep (BASE_DELAY * 2 ^ 1), Attempt 2])
         \<and> BASE_DELAY * 2 ^ 0 = 2 \<and> BASE_DELAY * 2 ^ 1 = 4"
proof -
  have f: "func 0 = Inl (err 0)" "func (Suc 0) = Inl (err 1)" "func 2 = Inl (err 2)"
    using assms[of 0] assms[of 1] assms[of 2] by (simp_all add: MAX_RETRIES_def)
  have u: "[0..<MAX_RETRIES] = [0, Suc 0, 2]"
    by (simp add: MAX_RETRIES_def upt_rec numeral_eq_Suc)
  show ?thesis
    unfolding retry_on_error_def u
    by (simp add: f MAX_RETRIES_def BASE_DELAY_def)
qed

theorem retry_on_error_all_fail_witness:
  "retry_on_error remote_down =
     (Inl (RemoteError ''connection reset''), [Attempt 0, Sleep 2, Attempt 1, Sleep 4, Attempt 2])"
  using retry_on_error_all_fail[of remote_down "\<lambda>k. RemoteError ''connection reset''"]
  by (simp add: remote_down_def BASE_DELAY_def)

section \<open>The atomic replace\<close>

text \<open>
  Claim C5. \<open>safe_replace_issues\<close> on the empty list returns 0 and leaves the database
  as it was: no row is deleted, whatever the store would have done at any step.
\<close>

theorem safe_replace_issues_empty:
  "safe_replace_issues e db [] = (Inr 0, db)
   \<and> get_all_issues (snd (safe_replace_issues e db [])) = get_all_issues db
   \<and> get_issues_count (snd (safe_replace_issues e db [])) = get_issues_count db"
  by (simp add: safe_replace_issues_def)

lemma executemany_db_file:
  "executemany e i rows conn = Inr c \<Longrightarrow> db_file c = db_file conn"
  "executemany e i rows conn = Inl (x, c) \<Longrightarrow> db_file c = db_file conn"
  by (induction e i rows conn rule: executemany.induct) (auto split: sum.splits)

lemma safe_replace_try_db_file:
  assumes "safe_replace_try e conn rows = Inl (x, c)"
  shows "db_file c = db_file conn"
  using assms executemany_db_file[of e 0 rows]
  by (auto simp: safe_replace_try_def execute_delete_def commit_def split: sum.splits option.splits)

lemma safe_replace_issues_failure:
  assumes "safe_replace_issues e db issues = (Inl x, db')"
  shows "db' = db"
  using assms safe_replace_try_db_file[of e _ "map row_tuple issues"]
  by (auto simp: safe_replace_issues_def connect_def close_def rollback_def Let_def
           split: if_splits sum.splits option.splits prod.splits)

lemma executemany_append:
  "executemany e i (xs @ ys) conn =
     (case executemany e i xs conn of
        Inl f \<Rightarrow> Inl f
      | Inr c \<Rightarrow> executemany e (i + length xs) ys c)"
  by (induction e i xs conn rule: executemany.induct) (auto split: sum.splits)

lemma executemany_fails_at:
  assumes "k < length rows"
    and "executemany e 0 (take k rows) conn = Inr c"
    and "exec_insert e k (rows ! k) (current_issues c) = Inl x"
  shows "executemany e 0 rows conn = Inl (x, c)"
proof -
  have "rows = take k rows @ (rows ! k) # drop (Suc k) rows"
    using assms(1) by (simp add: id_take_nth_drop)
  then have "executemany e 0 rows conn
      = executemany e 0 (take k rows @ (rows ! k) # drop (Suc k) rows) conn" by simp
  also have "\<dots> = executemany e k ((rows ! k) # drop (Suc k) rows) c"
    using assms(1,2) by (simp add: executemany_append min_def)
  also have "\<dots> = Inl (x, c)" using assms(3) by simp
  finally show ?thesis .
qed

text \<open>
  Claim C1. For a non-empty list of rows, when a step of \<open>safe_replace_issues\<close> fails
  after the connection is open, the database file is afterwards what it was before the
  call, and the exception of the failing step is the one raised to the caller: when the
  delete fails; when the first \<open>k\<close> rows are inserted (the open transaction \<open>c\<close>
  holds them) and the insert of row \<open>k\<close> fails; when the commit fails. Whatever
  exception the call raises, the database file is unchanged.
\<close>

theorem safe_replace_issues_rollback:
  assumes "issues \<noteq> []" and "fault e Connect = None"
  shows
    "(fault e Delete = Some x \<longrightarrow> safe_replace_issues e db issues = (Inl x, db))
     \<and> (fault e Delete = None \<and> k < length issues
          \<and> executemany e 0 (take k (map row_tuple issues)) \<lparr>db_file = db, txn = Some []\<rparr> = Inr c
          \<and> exec_insert e k (row_tuple (issues ! k)) (current_issues c) = Inl x
        \<longrightarrow> safe_replace_issues e db issues = (Inl x, db))
     \<and> (fault e Delete = None
          \<and> executemany e 0 (map row_tuple issues) \<lparr>db_file = db, txn = Some []\<rparr> = Inr c
          \<and> fault e Commit = Some x
        \<longrightarrow> safe_replace_issues e db issues = (Inl x, db))
     \<and> (\<forall>y db'. safe_replace_issues e db issues = (Inl y, db') \<longrightarrow> db' = db)"
proof (intro conjI impI allI)
  assume "fault e Delete = Some x"
  then show "safe_replace_issues e db issues = (Inl x, db)"
    using assms
    by (simp add: safe_replace_issues_def connect_def safe_replace_try_def execute_delete_def
        close_def rollback_def)
next
  assume h: "fault e Delete = None \<and> k < length issues
          \<and> executemany e 0 (take k (map row_tuple issues)) \<lparr>db_file = db, txn = Some []\<rparr> = Inr c
          \<and> exec_insert e k (row_tuple (issues ! k)) (current_issues c) = Inl x"
  then have "executemany e 0 (map row_tuple issues) \<lparr>db_file = db, txn = Some []\<rparr> = Inl (x, c)"
    using executemany_fails_at[of k "map row_tuple issues" e "\<lparr>db_file = db, txn = Some []\<rparr>" c x]
    by simp
  moreover have "db_file c = db"
    using h executemany_db_file(1)[of e 0 "take k (map row_tuple issues)" "\<lparr>db_file = db, txn = Some []\<rparr>" c]
    by simp
  ultimately show "safe_replace_issues e db issues = (Inl x, db)"
    using assms h
    by (simp add: safe_replace_issues_def connect_def safe_replace_try_def execute_delete_def
        close_def rollback_def)
next
  assume h: "fault e Delete = None
          \<and> executemany e 0 (map row_tuple issues) \<lparr>db_file = db, txn = Some []\<rparr> = Inr c
          \<and> fault e Commit = Some x"
  moreover have "db_file c = db"
    using h executemany_db_file(1)[of e 0 "map row_tuple issues" "\<lparr>db_file = db, txn = Some []\<rparr>" c]
    by simp
  ultimately show "safe_replace_issues e db issues = (Inl x, db)"
    using assms
    by (simp add: safe_replace_issues_def connect_def safe_replace_try_def execute_delete_def
        commit_def close_def rollback_def)
next
  fix y db' assume "safe_replace_issues e db issues = (Inl y, db')"
  then show "db' = db" by (rule safe_replace_issues_failure)
qed

theorem safe_replace_issues_rollback_witness:
  "three_issues \<noteq> [] \<and> fault env_insert_fails Connect = None
   \<and> fault env_insert_fails Delete = None \<and> 1 < length three_issues
   \<and> executemany env_insert_fails 0 (take 1 (map row_tuple three_issues))
        \<lparr>db_file = db_two, txn = Some []\<rparr>
      = Inr \<lparr>db_file = db_two, txn = Some [stored_issue 1 ''ROCm Issue'' ''Done'']\<rparr>
   \<and> exec_insert env_insert_fails 1 (row_tuple (three_issues ! 1))
        (current_issues \<lparr>db_file = db_two, txn = Some [stored_issue 1 ''ROCm Issue'' ''Done'']\<rparr>)
      = Inl (OperationalError ''disk I/O error'')
   \<and> safe_replace_issues env_insert_fails db_two three_issues
      = (Inl (OperationalError ''disk I/O error''), db_two)"
proof -
  have 1: "three_issues \<noteq> []" "1 < length three_issues"
    by (simp_all add: three_issues_def)
  have 2: "fault env_insert_fails Connect = None" "fault env_insert_fails Delete = None"
    by (simp_all add: env_insert_fails_def fault_at_def)
  have 3: "executemany env_insert_fails 0 (take 1 (map row_tuple three_issues))
        \<lparr>db_file = db_two, txn = Some []\<rparr>
      = Inr \<lparr>db_file = db_two, txn = Some [stored_issue 1 ''ROCm Issue'' ''Done'']\<rparr>"
    by (simp add: three_issues_def env_insert_fails_def store_eval)
  have 4: "exec_insert env_insert_fails 1 (row_tuple (three_issues ! 1))
        (current_issues \<lparr>db_file = db_two, txn = Some [stored_issue 1 ''ROCm Issue'' ''Done'']\<rparr>)
      = Inl (OperationalError ''disk I/O error'')"
    by (simp add: env_insert_fails_def exec_insert_def fault_at_def)
  have 5: "safe_replace_issues env_insert_fails db_two three_issues
      = (Inl (OperationalError ''disk I/O error''), db_two)"
    using safe_replace_issues_rollback[OF 1(1) 2(1),
        where x = "OperationalError ''disk I/O error''" and k = 1 and db = db_two
          and c = "\<lparr>db_file = db_two, txn = Some [stored_issue 1 ''ROCm Issue'' ''Done'']\<rparr>"]
      1 2 3 4 by blast
  from 1 2 3 4 5 show ?thesis by blast
qed

section \<open>Writing rows and reading them back\<close>

lemma map_columns: "map f columns = f ''id'' # map f (tl columns)"
  by (simp add: columns_def)

lemma bind_params_text:
  assumes "list_all text_or_none vs"
  shows "bind_params vs = Inr (map (\<lambda>v. case v of PNone \<Rightarrow> Null | PInt i \<Rightarrow> Integer i | PStr s \<Rightarrow> Text s) vs)"
  using assms
  by (induction vs) (auto simp: bind_param_def text_or_none_def split: pyval.splits)

lemma text_affinity_text:
  assumes "text_or_none v"
  shows "text_affinity (case v of PNone \<Rightarrow> Null | PInt i \<Rightarrow> Integer i | PStr s \<Rightarrow> Text s) = stored_text v"
  using assms by (cases v) (simp_all add: text_affinity_def stored_text_def text_or_none_def)

lemma exec_insert_storable:
  assumes "storable item"
  shows "exec_insert e i (row_tuple item) tbl =
           (case fault e (Insert i) of
              Some x \<Rightarrow> Inl x
            | None \<Rightarrow> Inr (upsert (stored_form item) tbl))"
proof -
  obtain k where k: "row_id item = PInt k" "- (2 ^ 63) \<le> k" "k < 2 ^ 63"
    using assms by (auto simp: storable_def split: pyval.splits)
  let ?g = "\<lambda>col. dict_get item col (PStr [])"
  have t: "list_all text_or_none (map ?g (tl columns))"
    using assms by (simp add: storable_def list_all_iff)
  have rt: "row_tuple item = PInt k # map ?g (tl columns)"
    using k(1) by (simp add: row_tuple_def row_id_def map_columns)
  have b: "bind_params (row_tuple item) =
      Inr (Integer k # map (\<lambda>v. case v of PNone \<Rightarrow> Null | PInt i \<Rightarrow> Integer i | PStr s \<Rightarrow> Text s) (map ?g (tl columns)))"
    using k bind_params_text[OF t] by (simp add: rt bind_param_def)
  have a: "map (\<lambda>x. text_affinity (case dict_get item x (PStr []) of
                 PNone \<Rightarrow> Null | PInt i \<Rightarrow> Integer i | PStr s \<Rightarrow> Text s)) (tl columns)
       = map (\<lambda>col. stored_text (?g col)) (tl columns)"
    using t by (auto simp: list_all_iff text_affinity_text)
  have s: "stored_form item = (k, map (\<lambda>col. stored_text (?g col)) (tl columns))"
    using k(1) by (simp add: stored_form_def row_key_def)
  show ?thesis
    by (simp add: exec_insert_def b rowid_of_def s o_def a split: option.splits)
qed

lemma executemany_storable:
  assumes "list_all storable items"
    and "executemany e i (map row_tuple items) conn = Inr c"
  shows "current_issues c = foldl (\<lambda>t it. upsert (stored_form it) t) (current_issues conn) items
         \<and> db_file c = db_file conn"
  using assms
proof (induction items arbitrary: i conn)
  case Nil
  then show ?case by simp
next
  case (Cons item items)
  from Cons.prems(1) have st: "storable item" and rest: "list_all storable items" by simp_all
  from Cons.prems(2) st have f: "fault e (Insert i) = None"
    by (auto simp: exec_insert_storable split: option.splits sum.splits)
  let ?conn = "conn\<lparr>txn := Some (upsert (stored_form item) (current_issues conn))\<rparr>"
  from Cons.prems(2) st f have "executemany e (Suc i) (map row_tuple items) ?conn = Inr c"
    by (simp add: exec_insert_storable)
  from Cons.IH[OF rest this] show ?case
    by (simp add: current_issues_def)
qed

lemma foldl_upsert_fresh:
  assumes "distinct (map row_key items)"
    and "\<forall>it \<in> set items. row_key it \<notin> fst ` set tbl"
  shows "foldl (\<lambda>t it. upsert (stored_form it) t) tbl items = rev (map stored_form items) @ tbl"
  using assms
proof (induction items arbitrary: tbl)
  case Nil
  then show ?case by simp
next
  case (Cons item items)
  have k: "fst (stored_form item) = row_key item" by (simp add: stored_form_def)
  have u: "upsert (stored_form item) tbl = stored_form item # tbl"
    using Cons.prems(2) by (force simp: upsert_def k filter_id_conv)
  have "\<forall>it \<in> set items. row_key it \<notin> fst ` set (stored_form item # tbl)"
    using Cons.prems by (auto simp: k image_iff)
  moreover have "distinct (map row_key items)" using Cons.prems(1) by simp
  ultimately show ?case using Cons.IH[of "stored_form item # tbl"] by (simp add: u)
qed

lemma storable_row_id:
  assumes "storable item"
  shows "row_id item = PInt (row_key item)"
  using assms by (auto simp: storable_def row_key_def split: pyval.splits)

lemma storable_keys_distinct:
  assumes "list_all storable items" and "distinct (map row_id items)"
  shows "distinct (map row_key items)"
proof -
  have "map row_id items = map PInt (map row_key items)"
    using assms(1) by (simp add: list_all_iff storable_row_id)
  with assms(2) show ?thesis by (auto simp: distinct_map inj_on_def)
qed

lemma safe_replace_issues_success:
  assumes "issues \<noteq> []" and "list_all storable issues" and "distinct (map row_id issues)"
    and "safe_replace_issues e db issues = (Inr n, db')"
  shows "n = length issues \<and> db' = db\<lparr>issues_tbl := rev (map stored_form issues)\<rparr>"
proof -
  let ?c1 = "\<lparr>db_file = db, txn = Some []\<rparr>"
  from assms(1,4) obtain c2 where
    d: "fault e Connect = None" "fault e Delete = None" "fault e Commit = None"
    and m: "executemany e 0 (map row_tuple issues) ?c1 = Inr c2"
    and r: "n = length issues" "db' = (db_file c2)\<lparr>issues_tbl := current_issues c2\<rparr>"
    by (auto simp: safe_replace_issues_def connect_def safe_replace_try_def execute_delete_def
        commit_def close_def Let_def split: option.splits sum.splits prod.splits)
  from executemany_storable[OF assms(2) m]
  have "current_issues c2 = foldl (\<lambda>t it. upsert (stored_form it) t) [] issues" "db_file c2 = db"
    by (simp_all add: current_issues_def)
  moreover have "foldl (\<lambda>t it. upsert (stored_form it) t) [] issues = rev (map stored_form issues) @ []"
    by (rule foldl_upsert_fresh) (simp_all add: storable_keys_distinct[OF assms(2,3)])
  ultimately show ?thesis using r by simp
qed

lemma row_to_dict_stored_form:
  assumes "storable item" and "col \<in> set columns"
  shows "dict_get (row_to_dict (stored_form item)) col PNone = dict_get item col (PStr [])"
proof (cases "col = ''id''")
  case True
  then show ?thesis
    using storable_row_id[OF assms(1)]
    by (simp add: row_to_dict_def dict_get_def stored_form_def row_id_def)
next
  case False
  with assms(2) have c: "col \<in> set (tl columns)"
    by (simp add: columns_def)
  let ?f = "\<lambda>col. py_of_sql (stored_text (dict_get item col (PStr [])))"
  have "map_of (zip (tl columns) (map ?f (tl columns))) col = Some (?f col)"
    using c by (simp add: map_of_zip_map)
  moreover have "text_or_none (dict_get item col (PStr []))"
    using assms(1) c by (simp add: storable_def list_all_iff)
  then have "?f col = dict_get item col (PStr [])"
    by (cases "dict_get item col (PStr [])") (simp_all add: text_or_none_def py_of_sql_def stored_text_def)
  ultimately show ?thesis
    using False
    by (simp add: row_to_dict_def stored_form_def dict_get_def[of "_ # _"] o_def)
qed

lemma three_issues_storable: "list_all storable three_issues \<and> distinct (map row_id three_issues)"
  by code_simp

lemma three_issues_replace:
  "safe_replace_issues env_ok db_two three_issues =
     (Inr 3, db_two\<lparr>issues_tbl := [stored_issue 3 ''Driver Issue'' ''Pending'',
                                   stored_issue 2 ''PyTorch Issue'' ''In Progress'',
                                   stored_issue 1 ''ROCm Issue'' ''Done'']\<rparr>)"
  by code_simp

text \<open>
  Claim C8, as the code has it. For a non-empty list of rows whose keys are pairwise
  different 64-bit integers and whose other fields are strings or \<open>None\<close>: when
  \<open>safe_replace_issues\<close> returns, it returns the number of rows, \<open>get_issues_count\<close>
  is that number, \<open>get_all_issues\<close> has that many rows, and each row written is read
  back with every column equal to what was written.
\<close>

theorem safe_replace_issues_roundtrip:
  assumes "issues \<noteq> []" and "list_all storable issues" and "distinct (map row_id issues)"
    and "safe_replace_issues e db issues = (Inr n, db')"
  shows "n = length issues \<and> get_issues_count db' = length issues
         \<and> length (get_all_issues db') = length issues
         \<and> (\<forall>item \<in> set issues. \<exists>d \<in> set (get_all_issues db').
               \<forall>col \<in> set columns. dict_get d col PNone = dict_get item col (PStr []))"
proof -
  from safe_replace_issues_success[OF assms]
  have n: "n = length issues" and t: "issues_tbl db' = rev (map stored_form issues)"
    by simp_all
  have c: "get_issues_count db' = length issues" "length (get_all_issues db') = length issues"
    by (simp_all add: get_issues_count_def get_all_issues_def order_by_id_desc_def t)
  have r: "\<forall>item \<in> set issues. \<exists>d \<in> set (get_all_issues db').
               \<forall>col \<in> set columns. dict_get d col PNone = dict_get item col (PStr [])"
  proof
    fix item assume i: "item \<in> set issues"
    then have s: "storable item" using assms(2) by (simp add: list_all_iff)
    have "row_to_dict (stored_form item) \<in> set (get_all_issues db')"
      using i by (simp add: get_all_issues_def order_by_id_desc_def t)
    moreover have "\<forall>col \<in> set columns.
        dict_get (row_to_dict (stored_form item)) col PNone = dict_get item col (PStr [])"
      using row_to_dict_stored_form[OF s] by blast
    ultimately show "\<exists>d \<in> set (get_all_issues db').
               \<forall>col \<in> set columns. dict_get d col PNone = dict_get item col (PStr [])"
      by blast
  qed
  from n c r show ?thesis by blast
qed

theorem safe_replace_issues_roundtrip_witness:
  "three_issues \<noteq> [] \<and> list_all storable three_issues \<and> distinct (map row_id three_issues)
   \<and> fst (safe_replace_issues env_ok db_two three_issues) = Inr 3
   \<and> get_issues_count (snd (safe_replace_issues env_ok db_two three_issues)) = length three_issues"
proof -
  have 1: "three_issues \<noteq> []" by (simp add: three_issues_def)
  note 2 = three_issues_storable
  note 3 = three_issues_replace
  from safe_replace_issues_roundtrip[OF 1 conjunct1[OF 2] conjunct2[OF 2] 3]
  have "get_issues_count (db_two\<lparr>issues_tbl := [stored_issue 3 ''Driver Issue'' ''Pending'',
                                   stored_issue 2 ''PyTorch Issue'' ''In Progress'',
                                   stored_issue 1 ''ROCm Issue'' ''Done'']\<rparr>) = length three_issues"
    by blast
  with 1 2 3 show ?thesis by simp
qed

text \<open>
  Claim C8 as stated fails on rows that share a key: \<open>INSERT OR REPLACE\<close> keeps the
  last of them, so two rows written leave one row stored.
\<close>

theorem safe_replace_issues_duplicate_ids:
  "fst (safe_replace_issues env_ok db_empty dup_issues) = Inr 2
   \<and> length dup_issues = 2
   \<and> get_issues_count (snd (safe_replace_issues env_ok db_empty dup_issues)) = 1
   \<and> issues_tbl (snd (safe_replace_issues env_ok db_empty dup_issues))
       = [stored_issue 1 ''ROCm Issue'' ''Done'']"
  by code_simp

section \<open>The order of reading\<close>

text \<open>
  The keys of the stored rows stay pairwise different under \<open>safe_replace_issues\<close>,
  whatever the rows written and whether or not the call fails.
\<close>

lemma upsert_distinct:
  assumes "distinct (map fst tbl)"
  shows "distinct (map fst (upsert r tbl))"
  using assms by (auto simp: upsert_def distinct_map_filter)

lemma exec_insert_distinct:
  assumes "exec_insert e i ps tbl = Inr tbl'" and "distinct (map fst tbl)"
  shows "distinct (map fst tbl')"
  using assms
  by (auto simp: exec_insert_def upsert_distinct split: option.splits sum.splits list.splits)

lemma executemany_distinct:
  assumes "executemany e i rows conn = Inr c" and "distinct (map fst (current_issues conn))"
  shows "distinct (map fst (current_issues c))"
  using assms
proof (induction rows arbitrary: i conn)
  case Nil
  then show ?case by simp
next
  case (Cons r rows)
  from Cons.prems(1) obtain tbl where
    t: "exec_insert e i r (current_issues conn) = Inr tbl"
    and m: "executemany e (Suc i) rows (conn\<lparr>txn := Some tbl\<rparr>) = Inr c"
    by (auto split: sum.splits)
  have "distinct (map fst (current_issues (conn\<lparr>txn := Some tbl\<rparr>)))"
    using exec_insert_distinct[OF t Cons.prems(2)] by (simp add: current_issues_def)
  from Cons.IH[OF m this] show ?case .
qed

lemma safe_replace_issues_keys_distinct:
  assumes "distinct (map fst (issues_tbl db))"
  shows "distinct (map fst (issues_tbl (snd (safe_replace_issues e db issues))))"
proof (cases "safe_replace_issues e db issues")
  case (Pair r db')
  show ?thesis
  proof (cases r)
    case (Inl x)
    with Pair have "db' = db" using safe_replace_issues_failure by blast
    with Pair assms show ?thesis by simp
  next
    case (Inr n)
    show ?thesis
    proof (cases "issues = []")
      case True
      then show ?thesis using assms by (simp add: safe_replace_issues_def)
    next
      case False
      with Pair Inr obtain c2 where
        m: "executemany e 0 (map row_tuple issues) \<lparr>db_file = db, txn = Some []\<rparr> = Inr c2"
        and r: "db' = (db_file c2)\<lparr>issues_tbl := current_issues c2\<rparr>"
        by (auto simp: safe_replace_issues_def connect_def safe_replace_try_def
            execute_delete_def commit_def close_def Let_def
            split: option.splits sum.splits prod.splits)
      have "distinct (map fst (current_issues c2))"
        using executemany_distinct[OF m] by (simp add: current_issues_def)
      with Pair r show ?thesis by simp
    qed
  qed
qed

lemma row_id_row_to_dict: "row_id (row_to_dict r) = PInt (fst r)"
  by (simp add: row_id_def row_to_dict_def dict_get_def)

lemma map_insort_key: "map f (insort_key f x xs) = insort (f x) (map f xs)"
  by (induction xs) simp_all

lemma map_sort_key: "map f (sort_key f xs) = sort (map f xs)"
  by (induction xs) (simp_all add: map_insort_key)

lemma ids_of_get_all_issues:
  "ids_of (get_all_issues db) = map PInt (rev (sort (map fst (issues_tbl db))))"
proof -
  have "ids_of (get_all_issues db) = map PInt (map fst (rev (sort_key fst (issues_tbl db))))"
    by (simp add: ids_of_def get_all_issues_def order_by_id_desc_def row_id_row_to_dict o_def)
  also have "map fst (rev (sort_key fst (issues_tbl db))) = rev (sort (map fst (issues_tbl db)))"
    by (metis rev_map map_sort_key)
  finally show ?thesis .
qed



lemma order_by_id_desc_unique:
  assumes "distinct (map fst t1)" and "distinct (map fst t2)" and "set t1 = set t2"
  shows "order_by_id_desc t1 = order_by_id_desc t2"
proof -
  let ?xs = "sort_key fst t1" and ?ys = "sort_key fst t2"
  have d1: "distinct (map fst ?xs)"
    using assms(1) by (simp add: distinct_map)
  have d2: "distinct (map fst ?ys)"
    using assms(2) by (simp add: distinct_map)
  have s: "set (map fst ?xs) = set (map fst ?ys)"
    using assms(3) by simp
  have k: "map fst ?xs = map fst ?ys"
    using sorted_sort_key[of fst t1] d1 sorted_sort_key[of fst t2] d2 s
    by (rule sorted_distinct_set_unique)
  have i: "inj_on fst (set ?xs \<union> set ?ys)"
    using assms by (simp add: distinct_map)
  have "?xs = ?ys"
    using inj_on_map_eq_map[OF i] k by blast
  then show ?thesis by (simp only: order_by_id_desc_def)
qed



lemma strict_desc:
  fixes ks :: "int list"
  assumes "distinct ks"
  shows "sorted_wrt (\<lambda>a b. a > b) (rev (sort ks))"
proof -
  have "sorted_wrt (<) (sort ks)"
    using assms by (simp add: strict_sorted_iff)
  then show ?thesis by (simp add: sorted_wrt_rev)
qed

lemma get_all_issues_set:
  "set (get_all_issues db) = row_to_dict ` set (issues_tbl db)"
  "length (get_all_issues db) = length (issues_tbl db)"
  by (simp_all add: get_all_issues_def order_by_id_desc_def)

text \<open>
  Claim C9, as the code has it. In a table whose keys are pairwise different,
  \<open>get_all_issues\<close> returns every stored row once,
  ordered by \<open>id\<close> from the largest to the smallest. The order depends on the rows
  stored only, not on the order in which they were written: two databases that hold the
  same rows give the same list.
\<close>

theorem get_all_issues_descending_id:
  assumes "distinct (map fst (issues_tbl db))"
  shows "ids_of (get_all_issues db) = map PInt (rev (sort (map fst (issues_tbl db))))
         \<and> sorted_wrt (\<lambda>a b. a > b) (rev (sort (map fst (issues_tbl db))))
         \<and> set (get_all_issues db) = row_to_dict ` set (issues_tbl db)
         \<and> length (get_all_issues db) = length (issues_tbl db)
         \<and> (\<forall>db2. distinct (map fst (issues_tbl db2)) \<and> set (issues_tbl db2) = set (issues_tbl db)
               \<longrightarrow> get_all_issues db2 = get_all_issues db)"
proof (intro conjI allI impI)
  show "ids_of (get_all_issues db) = map PInt (rev (sort (map fst (issues_tbl db))))"
    by (rule ids_of_get_all_issues)
  show "sorted_wrt (\<lambda>a b. a > b) (rev (sort (map fst (issues_tbl db))))"
    using assms by (rule strict_desc)
  show "set (get_all_issues db) = row_to_dict ` set (issues_tbl db)"
    by (rule get_all_issues_set)
  show "length (get_all_issues db) = length (issues_tbl db)"
    by (rule get_all_issues_set)
next
  fix db2 :: database
  assume h: "distinct (map fst (issues_tbl db2)) \<and> set (issues_tbl db2) = set (issues_tbl db)"
  then have "order_by_id_desc (issues_tbl db2) = order_by_id_desc (issues_tbl db)"
    using assms by (intro order_by_id_desc_unique) simp_all
  then show "get_all_issues db2 = get_all_issues db"
    by (simp only: get_all_issues_def)
qed

theorem get_all_issues_descending_id_witness:
  "distinct (map fst (issues_tbl db_two))
   \<and> ids_of (get_all_issues db_two) = [PInt 8, PInt 7]"
proof -
  have d: "distinct (map fst (issues_tbl db_two))" by code_simp
  have e: "map PInt (rev (sort (map fst (issues_tbl db_two)))) = [PInt 8, PInt 7]" by code_simp
  from get_all_issues_descending_id[OF d]
  have f: "ids_of (get_all_issues db_two) = map PInt (rev (sort (map fst (issues_tbl db_two))))"
    by (rule conjunct1)
  from f e have "ids_of (get_all_issues db_two) = [PInt 8, PInt 7]" by (rule trans)
  with d show ?thesis by (rule conjI)
qed

text \<open>
  Claim C9 as stated fails when the rows are not written in ascending order of
  \<open>id\<close>: after writing the row 2 and then the row 1, the row written last is the row 1
  (the head of the table in the model), and \<open>get_all_issues\<close> returns the row 2 first.
\<close>

theorem get_all_issues_not_by_recency:
  "ids_of desc_issues = [PInt 2, PInt 1]
   \<and> fst (safe_replace_issues env_ok db_empty desc_issues) = Inr 2
   \<and> map fst (issues_tbl (snd (safe_replace_issues env_ok db_empty desc_issues))) = [1, 2]
   \<and> ids_of (get_all_issues (snd (safe_replace_issues env_ok db_empty desc_issues)))
       = [PInt 2, PInt 1]"
  by code_simp

section \<open>Filtering\<close>

lemma condition_falsy: "falsy a \<Longrightarrow> condition col op a = []"
  by (auto simp: falsy_def condition_def)

lemma filter_issues_all_falsy:
  assumes "falsy c" "falsy p" "falsy ow" "falsy f" "falsy t" "falsy pc"
  shows "filter_issues db c p ow f t pc = get_all_issues db"
  using assms by (simp add: filter_issues_def get_all_issues_def condition_falsy)

lemma filter_issues_falsy_absent:
  "filter_issues db c p ow f t pc =
     filter_issues db (if falsy c then None else c) (if falsy p then None else p)
       (if falsy ow then None else ow) (if falsy f then None else f)
       (if falsy t then None else t) (if falsy pc then None else pc)"
proof -
  have "\<And>col op a. condition col op (if falsy a then None else a) = condition col op a"
    by (auto simp: falsy_def condition_def)
  then show ?thesis by (simp add: filter_issues_def)
qed

lemma blank_columns:
  "column_value ''category'' row_blank = Text []"
  "column_value ''progress'' row_blank = Text []"
  "column_value ''owner'' row_blank = Text []"
  "column_value ''problem_category'' row_blank = Text []"
  "column_value ''date'' row_blank = column_value ''date'' row_full"
  by code_simp+

lemma holds_blank_full:
  assumes "cnd \<in> set (condition ''category'' Eq c @ condition ''progress'' Eq p @
            condition ''owner'' Eq ow @ condition ''date'' Ge f @ condition ''date'' Le t @
            condition ''problem_category'' Eq pc)"
    and "holds row_blank cnd"
  shows "holds row_full cnd"
proof -
  from assms(1) consider
      x where "x \<noteq> []" "cnd = (''category'', Eq, x)"
    | x where "x \<noteq> []" "cnd = (''progress'', Eq, x)"
    | x where "x \<noteq> []" "cnd = (''owner'', Eq, x)"
    | x where "cnd = (''date'', Ge, x)"
    | x where "cnd = (''date'', Le, x)"
    | x where "x \<noteq> []" "cnd = (''problem_category'', Eq, x)"
    by (auto simp: condition_def split: option.splits if_splits)
  then show ?thesis
  proof cases
    case 1 with assms(2) show ?thesis by (simp add: holds_def blank_columns)
  next
    case 2 with assms(2) show ?thesis by (simp add: holds_def blank_columns)
  next
    case 3 with assms(2) show ?thesis by (simp add: holds_def blank_columns)
  next
    case 4 with assms(2) show ?thesis by (simp add: holds_def blank_columns)
  next
    case 5 with assms(2) show ?thesis by (simp add: holds_def blank_columns)
  next
    case 6 with assms(2) show ?thesis by (simp add: holds_def blank_columns)
  qed
qed

lemma db_blank_order: "order_by_id_desc (issues_tbl db_blank) = [row_full, row_blank]"
  by code_simp

lemma db_blank_rows_with_empty:
  "rows_with_empty ''category'' db_blank = [row_to_dict row_blank]"
  "rows_with_empty ''progress'' db_blank = [row_to_dict row_blank]"
  "rows_with_empty ''owner'' db_blank = [row_to_dict row_blank]"
  "rows_with_empty ''problem_category'' db_blank = [row_to_dict row_blank]"
  by code_simp+

lemma row_dicts_differ: "row_to_dict row_full \<noteq> row_to_dict row_blank"
  by code_simp

lemma filter_issues_db_blank:
  "filter_issues db_blank c p ow f t pc \<noteq> [row_to_dict row_blank]"
proof -
  let ?conds = "condition ''category'' Eq c @ condition ''progress'' Eq p @
            condition ''owner'' Eq ow @ condition ''date'' Ge f @ condition ''date'' Le t @
            condition ''problem_category'' Eq pc"
  have m: "list_all (holds row_blank) ?conds \<longrightarrow> list_all (holds row_full) ?conds"
    using holds_blank_full[of _ c p ow f t pc] unfolding list_all_iff by blast
  have e: "filter_issues db_blank c p ow f t pc =
      map row_to_dict (filter (\<lambda>r. list_all (holds r) ?conds) [row_full, row_blank])"
    by (simp only: filter_issues_def Let_def db_blank_order)
  show ?thesis
    using m row_dicts_differ unfolding e by auto
qed

text \<open>
  Claim C10. \<open>filter_issues\<close> skips the condition of every argument that is
  \<open>None\<close> or the empty string: with all six arguments so, it returns what
  \<open>get_all_issues\<close> returns, and any call is the call with \<open>None\<close> in place of
  each empty string. So for each of the columns category, progress, owner and
  problem_category, no choice of arguments makes \<open>filter_issues\<close> the query for the
  rows whose column is the empty string.
\<close>

theorem filter_issues_empty_is_absent:
  "(falsy c \<and> falsy p \<and> falsy ow \<and> falsy f \<and> falsy t \<and> falsy pc
      \<longrightarrow> filter_issues db c p ow f t pc = get_all_issues db)
   \<and> filter_issues db c p ow f t pc =
       filter_issues db (if falsy c then None else c) (if falsy p then None else p)
         (if falsy ow then None else ow) (if falsy f then None else f)
         (if falsy t then None else t) (if falsy pc then None else pc)
   \<and> (\<forall>col \<in> {''category'', ''progress'', ''owner'', ''problem_category''}.
         \<not> (\<exists>c p ow f t pc. \<forall>db. filter_issues db c p ow f t pc = rows_with_empty col db))"
proof (intro conjI impI ballI)
  assume "falsy c \<and> falsy p \<and> falsy ow \<and> falsy f \<and> falsy t \<and> falsy pc"
  then show "filter_issues db c p ow f t pc = get_all_issues db"
    by (simp add: filter_issues_all_falsy)
next
  show "filter_issues db c p ow f t pc =
       filter_issues db (if falsy c then None else c) (if falsy p then None else p)
         (if falsy ow then None else ow) (if falsy f then None else f)
         (if falsy t then None else t) (if falsy pc then None else pc)"
    by (rule filter_issues_falsy_absent)
next
  fix col :: string
  assume "col \<in> {''category'', ''progress'', ''owner'', ''problem_category''}"
  then have r: "rows_with_empty col db_blank = [row_to_dict row_blank]"
    using db_blank_rows_with_empty by blast
  show "\<not> (\<exists>c p ow f t pc. \<forall>db. filter_issues db c p ow f t pc = rows_with_empty col db)"
  proof
    assume "\<exists>c p ow f t pc. \<forall>db. filter_issues db c p ow f t pc = rows_with_empty col db"
    then obtain c p ow f t pc where
      "\<forall>db. filter_issues db c p ow f t pc = rows_with_empty col db" by blast
    then have "filter_issues db_blank c p ow f t pc = [row_to_dict row_blank]"
      using r by simp
    then show False using filter_issues_db_blank by blast
  qed
qed

theorem filter_issues_empty_is_absent_witness:
  "falsy None \<and> falsy (Some [])
   \<and> filter_issues db_two None (Some []) None (Some []) None None = get_all_issues db_two"
proof -
  have f: "falsy None" "falsy (Some [])" by (simp_all add: falsy_def)
  from filter_issues_empty_is_absent[of None "Some []" None "Some []" None None db_two] f
  have "filter_issues db_two None (Some []) None (Some []) None None = get_all_issues db_two"
    by blast
  with f show ?thesis by blast
qed

section \<open>The pipeline boundary\<close>

lemma sync_try_failure:
  assumes "fault e InitDb = None"
    and "fetch_google_sheets_data e = Inl x
         \<or> (\<exists>raw. fetch_google_sheets_data e = Inr (Some raw)
                \<and> fst (safe_replace_issues e db (transform_data raw)) = Inl x)"
  shows "sync_try e db = Inl (x, db)"
  using assms(2)
proof
  assume "fetch_google_sheets_data e = Inl x"
  then show ?thesis using assms(1) by (simp add: sync_try_def)
next
  assume "\<exists>raw. fetch_google_sheets_data e = Inr (Some raw)
                \<and> fst (safe_replace_issues e db (transform_data raw)) = Inl x"
  then obtain raw where f: "fetch_google_sheets_data e = Inr (Some raw)"
    and r: "fst (safe_replace_issues e db (transform_data raw)) = Inl x" by blast
  obtain db' where p: "safe_replace_issues e db (transform_data raw) = (Inl x, db')"
    using r by (cases "safe_replace_issues e db (transform_data raw)") simp
  then have "db' = db" by (rule safe_replace_issues_failure)
  with p f assms(1) show ?thesis by (simp add: sync_try_def)
qed

lemma fetch_remote_down:
  "fetch_google_sheets_data env_remote_down = Inl (RemoteError ''connection reset'')"
  by code_simp

lemma sync_success_example:
  "sync env_ok db_two =
     (Inr True,
      \<lparr>issues_tbl = [(1, [Text [], Text [], Text [], Text ''ROCm Issue'', Text [], Text [],
                          Text [], Text ''done'', Text [], Text []])],
       sync_log_tbl = [(2, ''success'', ''Full sync completed''),
                       (1, ''success'', ''Full sync completed'')]\<rparr>)"
  by code_simp

text \<open>
  Claim C2, as the code has it. When the fetch or the replace raises an exception \<open>x\<close>
  inside \<open>sync\<close>, the handler calls \<open>log_sync(0, "failed", str(x))\<close>. When that
  call succeeds, the ledger gains this one record, the issues are as before the run, and
  \<open>sync\<close> returns \<open>False\<close>. When that call raises, its exception leaves
  \<open>sync\<close>.
\<close>

theorem sync_failure_recorded:
  assumes "fault e InitDb = None"
    and "fetch_google_sheets_data e = Inl x
         \<or> (\<exists>raw. fetch_google_sheets_data e = Inr (Some raw)
                \<and> fst (safe_replace_issues e db (transform_data raw)) = Inl x)"
  shows "(fault e LogFailed = None \<longrightarrow>
            sync e db =
              (Inr False, db\<lparr>sync_log_tbl := sync_log_tbl db @ [(0, ''failed'', str_exn x)]\<rparr>))
         \<and> (\<forall>y. fault e LogFailed = Some y \<longrightarrow> sync e db = (Inl y, db))"
  using sync_try_failure[OF assms]
  by (simp add: sync_def log_sync_def)

theorem sync_failure_recorded_witness:
  "fault env_remote_down InitDb = None
   \<and> fetch_google_sheets_data env_remote_down = Inl (RemoteError ''connection reset'')
   \<and> fault env_remote_down LogFailed = None
   \<and> sync env_remote_down db_two =
       (Inr False,
        db_two\<lparr>sync_log_tbl := sync_log_tbl db_two @ [(0, ''failed'', ''connection reset'')]\<rparr>)"
proof -
  have i: "fault env_remote_down InitDb = None" "fault env_remote_down LogFailed = None"
    by (simp_all add: env_remote_down_def no_fault_def)
  note f = fetch_remote_down
  from sync_failure_recorded[OF i(1) disjI1[OF f], of db_two] i(2)
  have "sync env_remote_down db_two =
       (Inr False,
        db_two\<lparr>sync_log_tbl := sync_log_tbl db_two @ [(0, ''failed'', ''connection reset'')]\<rparr>)"
    by simp
  with i f show ?thesis by blast
qed

text \<open>
  Claim C2 as stated fails when the store is down for the whole run: the fetch fails,
  the handler's \<open>log_sync\<close> raises, and the exception leaves \<open>sync\<close>.
\<close>

theorem sync_raises_when_ledger_fails:
  "sync env_store_down db_two = (Inl (OperationalError ''database is locked''), db_two)"
  by code_simp

section \<open>Rows without an id\<close>

text \<open>
  \<open>transform_data\<close> keeps, in order, the rows whose ID cell is present and is neither
  the empty string nor \<open>None\<close>, and counts the others.
\<close>

lemma transform_loop_filter:
  "transform_loop raw (acc, n) =
     (acc @ map transform_row (filter (\<lambda>row. \<not> id_missing row) raw),
      n + length (filter id_missing raw))"
  by (induction raw arbitrary: acc n) (simp_all add: id_missing_def Let_def)

lemma transform_data_filter:
  "transform_data raw = map transform_row (filter (\<lambda>row. \<not> id_missing row) raw)"
  "skipped_count raw = length (filter id_missing raw)"
  by (simp_all add: transform_data_def skipped_count_def transform_loop_filter)

text \<open>
  Claim C6 at a raw row whose ID cell holds one blank. The test for an empty ID comes
  before the strip: the row is not skipped, its id is the empty string after the strip,
  and the row is handed to \<open>safe_replace_issues\<close>. SQLite refuses the empty text as a
  key, the whole batch is rolled back, and the run is recorded as failed.
\<close>

theorem transform_data_blank_id_reaches_store:
  "id_missing blank_id_row = False
   \<and> skipped_count [keyed_row, blank_id_row] = 0
   \<and> map row_id (transform_data [keyed_row, blank_id_row]) = [PInt 1, PStr []]
   \<and> safe_replace_issues env_blank_id db_two (transform_data [keyed_row, blank_id_row])
       = (Inl (IntegrityError ''datatype mismatch''), db_two)
   \<and> sync env_blank_id db_two
       = (Inr False,
          db_two\<lparr>sync_log_tbl := sync_log_tbl db_two @ [(0, ''failed'', ''datatype mismatch'')]\<rparr>)"
  by code_simp

end
